theory Spec2Isabelle
  imports Complex_Main "HOL-Library.Word"
begin

unbundle bit_operations_syntax

section \<open>Conventions of the embedding\<close>

text \<open>
  The two note producers are \<^verbatim>\<open>generateDeterministicNotes\<close> (procedural path) and
  \<^verbatim>\<open>AudioEngine.analyzeAudioSegment\<close> with its private helper
  \<^verbatim>\<open>autoCorrelate\<close> (analytical path).

  JavaScript numbers are IEEE doubles. The embedding takes every finite double as the real
  number it denotes and computes exactly; rounding error is outside the model. The values
  that are not real numbers are written out where the code can produce them:
  \<^verbatim>\<open>undefined\<close>/\<^verbatim>\<open>NaN\<close> scale degrees are \<open>None\<close>, and a MIDI pitch is
  an integer, \<^verbatim>\<open>Infinity\<close> or \<^verbatim>\<open>NaN\<close>. The seed cursor and every 32-bit mixing
  step are exact in both worlds, so all random decisions of the generator are modelled
  bit for bit.

  Where the code floors, ceils or compares a computed number (the two bar bounds of the
  generator, its window tests, the millisecond stamp in an identifier of the analytical
  path), its rounded value can fall on the other side of an integer or of a window edge
  when the exact value lies within rounding distance of it. The statement about the
  window of the generator is therefore also made for every pair of bar bounds, and
  compares emitted start times with the window only.
\<close>

datatype pitch = Pitch int | PitchInfinity | PitchNaN

datatype jsnum = Fin real | PosInf | NegInf | NaN

text \<open>
  Event identifiers are template literals over the fields listed below, joined by
  underscores after a fixed prefix (\<^verbatim>\<open>bass_\<close>, \<^verbatim>\<open>harm_\<close>, \<^verbatim>\<open>mel_\<close>,
  \<^verbatim>\<open>evt_real_\<close>). The rendering of a number contains no underscore, so the string
  determines the fields; the embedding keeps the fields.
\<close>

datatype note_id =
    BassId int nat
  | HarmId int nat
  | MelId int real int
  | RealId int nat

record NoteEvent =
  ident :: note_id
  start_time :: real
  duration :: real
  midi_pitch :: pitch
  velocity :: real
  confidence :: real

section \<open>SeedStream\<close>

text \<open>
  \<^verbatim>\<open>getSeededRandom(seed)\<close>. The argument is an integer-valued number; the first
  bitwise operator converts \<^verbatim>\<open>seed + 0x6D2B79F5\<close> to 32 bits, \<^verbatim>\<open>Math.imul\<close>
  multiplies modulo \<open>2^32\<close>, \<^verbatim>\<open>>>>\<close> is the logical shift and the final
  \<^verbatim>\<open>>>> 0\<close> reads the word as unsigned.
\<close>

definition getSeededRandom :: "int \<Rightarrow> real" where
  "getSeededRandom seed =
    (let t0 = (word_of_int (seed + 0x6D2B79F5) :: 32 word);
         t1 = (t0 XOR drop_bit 15 t0) * (t0 OR 1);
         t2 = t1 XOR (t1 + (t1 XOR drop_bit 7 t1) * (t1 OR 61))
     in real_of_int (uint (t2 XOR drop_bit 14 t2)) / 4294967296)"

text \<open>The closure \<^verbatim>\<open>rng\<close>: draw from the cursor, then advance it by one.\<close>

definition rng :: "int \<Rightarrow> real \<times> int" where
  "rng seed = (getSeededRandom seed, seed + 1)"

text \<open>
  The mixing function as the specification words it, on natural numbers below \<open>2^32\<close>
  with every wrap-around written as \<open>mod 2^32\<close>.
\<close>

definition spec_next :: "nat \<Rightarrow> real" where
  "spec_next state =
    (let t = (state + 0x6D2B79F5) mod 2 ^ 32;
         t = ((t XOR (t div 2 ^ 15)) * (t OR 1)) mod 2 ^ 32;
         t = t XOR ((t + ((t XOR (t div 2 ^ 7)) * (t OR 61)) mod 2 ^ 32) mod 2 ^ 32)
     in real (t XOR (t div 2 ^ 14)) / 2 ^ 32)"

section \<open>CompositionGenerator\<close>

text \<open>JavaScript's \<^verbatim>\<open>%\<close> on integers truncates towards zero.\<close>

definition js_rem :: "int \<Rightarrow> int \<Rightarrow> int" where
  "js_rem a b = sgn a * (\<bar>a\<bar> mod \<bar>b\<bar>)"

text \<open>The constants a call derives from the seed, captured by the per-bar code.\<close>

record GeneratorContext =
  BEAT_DURATION :: real
  rootNote :: int
  scaleIntervals :: "int list"
  progression :: "int list"
  startTime :: real
  endTime :: real

definition BAR_DURATION :: "GeneratorContext \<Rightarrow> real" where
  "BAR_DURATION ctx = BEAT_DURATION ctx * 4"

definition PROGRESSIONS :: "int list list" where
  "PROGRESSIONS = [[0, 4, 5, 3], [1, 4, 0, 5], [0, 5, 3, 4], [5, 3, 0, 4]]"

text \<open>
  \<^verbatim>\<open>getMidiPitch(degree, octaveOffset)\<close>. A degree that is \<^verbatim>\<open>undefined\<close> or
  \<^verbatim>\<open>NaN\<close> gives \<^verbatim>\<open>NaN\<close>.
\<close>

definition getMidiPitch :: "GeneratorContext \<Rightarrow> int option \<Rightarrow> int \<Rightarrow> pitch" where
  "getMidiPitch ctx degree octaveOffset =
    (case degree of
       None \<Rightarrow> PitchNaN
     | Some d \<Rightarrow>
        (let len = int (length (scaleIntervals ctx));
             oct = d div len;
             idx = js_rem (js_rem d len + len) len
         in Pitch (rootNote ctx + octaveOffset * 12 + oct * 12 + scaleIntervals ctx ! nat idx)))"

text \<open>
  \<^verbatim>\<open>progression[bar % 4]\<close>: a negative remainder indexes nothing and reads
  \<^verbatim>\<open>undefined\<close>.
\<close>

definition chordAt :: "GeneratorContext \<Rightarrow> int \<Rightarrow> int option" where
  "chordAt ctx bar =
    (let r = js_rem bar 4 in if r < 0 then None else Some (progression ctx ! nat r))"

definition degree_plus :: "int option \<Rightarrow> int \<Rightarrow> int option" where
  "degree_plus d k = map_option (\<lambda>x. x + k) d"

text \<open>Comparisons in which an operand is \<^verbatim>\<open>NaN\<close> are false.\<close>

definition degree_less :: "int option \<Rightarrow> int option \<Rightarrow> bool" where
  "degree_less a b = (case (a, b) of (Some x, Some y) \<Rightarrow> x < y | _ \<Rightarrow> False)"

definition pitch_gt :: "pitch \<Rightarrow> int \<Rightarrow> bool" where
  "pitch_gt p k = (case p of Pitch x \<Rightarrow> x > k | PitchInfinity \<Rightarrow> True | PitchNaN \<Rightarrow> False)"

definition pitch_lt :: "pitch \<Rightarrow> int \<Rightarrow> bool" where
  "pitch_lt p k = (case p of Pitch x \<Rightarrow> x < k | _ \<Rightarrow> False)"

subsection \<open>Layer A: bass\<close>

definition bassLayer :: "GeneratorContext \<Rightarrow> int \<Rightarrow> int \<Rightarrow> NoteEvent list \<times> int" where
  "bassLayer ctx bar seed =
    (let barStart = real_of_int bar * BAR_DURATION ctx;
         chordDegree = chordAt ctx bar;
         bassTime = max (startTime ctx) barStart
     in if bassTime < endTime ctx then
          (let n1 = \<lparr> ident = BassId bar 1, start_time = barStart,
                      duration = BEAT_DURATION ctx * 1.2,
                      midi_pitch = getMidiPitch ctx chordDegree (- 2),
                      velocity = 0.85, confidence = 0.98 \<rparr>;
               (r, seed1) = rng seed
           in if r > 0.4 then
                (let beat3 = barStart + BEAT_DURATION ctx * 2
                 in if beat3 \<ge> startTime ctx \<and> beat3 < endTime ctx then
                      (let (r2, seed2) = rng seed1;
                           interval = (if r2 > 0.5 then 4 else 0)
                       in ([n1, \<lparr> ident = BassId bar 3, start_time = beat3,
                                   duration = BEAT_DURATION ctx,
                                   midi_pitch = getMidiPitch ctx (degree_plus chordDegree interval) (- 2),
                                   velocity = 0.75, confidence = 0.9 \<rparr>], seed2))
                    else ([n1], seed1))
              else ([n1], seed1))
        else ([], seed))"

subsection \<open>Layer B: harmony\<close>

definition harmonyNote :: "GeneratorContext \<Rightarrow> int \<Rightarrow> real \<Rightarrow> int \<times> nat \<Rightarrow> NoteEvent list" where
  "harmonyNote ctx bar intensity p =
    (let interval = fst p; idx = snd p;
         strumDelay = real idx * 0.03;
         time = real_of_int bar * BAR_DURATION ctx + BEAT_DURATION ctx + strumDelay
     in if time \<ge> startTime ctx \<and> time < endTime ctx then
          [\<lparr> ident = HarmId bar idx, start_time = time,
             duration = BEAT_DURATION ctx * 2,
             midi_pitch = getMidiPitch ctx (degree_plus (chordAt ctx bar) interval) (- 1),
             velocity = 0.4 + intensity * 0.2, confidence = 0.85 \<rparr>]
        else [])"

definition harmonyLayer :: "GeneratorContext \<Rightarrow> int \<Rightarrow> int \<Rightarrow> NoteEvent list \<times> int" where
  "harmonyLayer ctx bar seed =
    (let (intensity, seed1) = rng seed
     in if intensity > 0.3 then
          (concat (map (harmonyNote ctx bar intensity) [(0, 0), (2, 1), (4, 2)]), seed1)
        else ([], seed1))"

subsection \<open>Layer C: melody\<close>

text \<open>\<^verbatim>\<open>currentBeat % 2 === 0\<close> for a finite, non-negative \<^verbatim>\<open>currentBeat\<close>.\<close>

definition even_beat :: "real \<Rightarrow> bool" where
  "even_beat b = (b / 2 = real_of_int \<lfloor>b / 2\<rfloor>)"

text \<open>
  The pitch logic of a sounding melody slot, before the range clamp: one step up or down
  from the last degree, on even beat positions one step towards the chord tone, and at
  the end of the bar (beat 3 or later, slot of at least one beat) the fifth above the chord
  root in an even bar, the chord root in an odd bar.
\<close>

definition melodyTarget ::
  "GeneratorContext \<Rightarrow> int \<Rightarrow> real \<Rightarrow> real \<Rightarrow> int option \<Rightarrow> int \<Rightarrow> int option \<Rightarrow> int option"
where
  "melodyTarget ctx bar currentBeat dur chordTone step lastMelodyDegree =
    (let chordDegree = chordAt ctx bar;
         isQuestion = (js_rem bar 2 = 0);
         c0 = degree_plus lastMelodyDegree step;
         c1 = (if even_beat currentBeat then
                 (if degree_less c0 chordTone then degree_plus c0 1
                  else if degree_less chordTone c0 then degree_plus c0 (- 1)
                  else c0)
               else c0)
     in if currentBeat \<ge> 3 \<and> dur \<ge> 1 then
          (if isQuestion then degree_plus chordDegree 4 else chordDegree)
        else c1)"

text \<open>
  The range clamp: one scale length down when the pitch is above 84, then one scale
  length up when the pitch is below 60.
\<close>

definition rangeClamp :: "GeneratorContext \<Rightarrow> int option \<Rightarrow> int option" where
  "rangeClamp ctx c =
    (let c3 = (if pitch_gt (getMidiPitch ctx c 0) 84 then degree_plus c (- 7) else c)
     in if pitch_lt (getMidiPitch ctx c3 0) 60 then degree_plus c3 7 else c3)"

text \<open>
  One slot of the melody walk that sounds: the three draws (chord tone, step, id suffix)
  around the pitch logic. Returns the note, the cursor and the new
  \<^verbatim>\<open>lastMelodyDegree\<close>.
\<close>

definition melodyNote ::
  "GeneratorContext \<Rightarrow> int \<Rightarrow> real \<Rightarrow> real \<Rightarrow> int \<Rightarrow> int option \<Rightarrow> NoteEvent \<times> int \<times> int option"
where
  "melodyNote ctx bar currentBeat dur seed lastMelodyDegree =
    (let chordDegree = chordAt ctx bar;
         noteTime = real_of_int bar * BAR_DURATION ctx + currentBeat * BEAT_DURATION ctx;
         (r1, seed1) = rng seed;
         chordTone = degree_plus chordDegree (if r1 > 0.5 then 0 else 2);
         (r2, seed2) = rng seed1;
         step = (if r2 > 0.5 then 1 else - 1);
         candidateDegree =
           rangeClamp ctx (melodyTarget ctx bar currentBeat dur chordTone step lastMelodyDegree);
         (r3, seed3) = rng seed2
     in (\<lparr> ident = MelId bar currentBeat \<lfloor>r3 * 100\<rfloor>, start_time = noteTime,
            duration = dur * BEAT_DURATION ctx * 0.9,
            midi_pitch = getMidiPitch ctx candidateDegree 0,
            velocity = (if even_beat currentBeat then 0.9 else 0.7),
            confidence = 0.95 \<rparr>, seed3, candidateDegree))"

text \<open>
  The \<^verbatim>\<open>while (currentBeat < 4)\<close> loop. The state is the beat position, the cursor,
  \<^verbatim>\<open>lastMelodyDegree\<close> and the notes pushed so far. The draw for
  \<^verbatim>\<open>shouldPlay\<close> is skipped on beat 0 (short-circuit \<^verbatim>\<open>||\<close>).
\<close>

function melodyLoop ::
  "GeneratorContext \<Rightarrow> int \<Rightarrow> real \<Rightarrow> int \<Rightarrow> int option \<Rightarrow> NoteEvent list
     \<Rightarrow> NoteEvent list \<times> int \<times> int option"
where
  "melodyLoop ctx bar currentBeat seed lastMelodyDegree notes =
    (if currentBeat < 4 then
       (let (rhythmRoll, seed1) = rng seed;
            dur = (if rhythmRoll > 0.7 then 2 else if rhythmRoll < 0.3 then 0.5 else 1);
            noteTime = real_of_int bar * BAR_DURATION ctx + currentBeat * BEAT_DURATION ctx;
            (shouldPlay, seed2) =
               (if currentBeat = 0 then (True, seed1)
                else (let (r, s) = rng seed1 in (r > 0.3, s)))
        in if shouldPlay \<and> noteTime \<ge> startTime ctx \<and> noteTime < endTime ctx then
             (let (n, seed3, deg) = melodyNote ctx bar currentBeat dur seed2 lastMelodyDegree
              in melodyLoop ctx bar (currentBeat + dur) seed3 deg (notes @ [n]))
           else melodyLoop ctx bar (currentBeat + dur) seed2 lastMelodyDegree notes)
     else (notes, seed, lastMelodyDegree))"
  by pat_completeness auto
termination
proof (relation "measure (\<lambda>(ctx, bar, currentBeat, seed, last, notes). nat \<lceil>8 - 2 * currentBeat\<rceil>)")
  show "wf (measure (\<lambda>(ctx, bar, currentBeat, seed, last, notes). nat \<lceil>8 - 2 * currentBeat\<rceil>))"
    by simp
qed (auto split: if_splits, linarith+)

declare melodyLoop.simps [simp del]

subsection \<open>The bar loop and the producer\<close>

text \<open>The body of the \<^verbatim>\<open>for\<close> loop over bars: bass, harmony, melody, in this order.\<close>

definition barBody ::
  "GeneratorContext \<Rightarrow> int \<Rightarrow> int \<times> int option \<times> NoteEvent list \<Rightarrow> int \<times> int option \<times> NoteEvent list"
where
  "barBody ctx bar st =
    (let (seed, lastMelodyDegree, notes) = st;
         (bass, seed1) = bassLayer ctx bar seed;
         (harm, seed2) = harmonyLayer ctx bar seed1;
         (notes', seed3, deg) = melodyLoop ctx bar 0 seed2 lastMelodyDegree (notes @ bass @ harm)
     in (seed3, deg, notes'))"

function barLoop ::
  "GeneratorContext \<Rightarrow> int \<Rightarrow> int \<Rightarrow> int \<times> int option \<times> NoteEvent list \<Rightarrow> int \<times> int option \<times> NoteEvent list"
where
  "barLoop ctx bar endBar st =
    (if bar < endBar then barLoop ctx (bar + 1) endBar (barBody ctx bar st) else st)"
  by pat_completeness auto
termination
  by (relation "measure (\<lambda>(ctx, bar, endBar, st). nat (endBar - bar))") auto

declare barLoop.simps [simp del]

text \<open>\<^verbatim>\<open>videoId.split('').reduce((acc, char) => acc + char.charCodeAt(0), 0)\<close>.\<close>

definition seedOf :: "string \<Rightarrow> int" where
  "seedOf videoId = foldl (\<lambda>acc c. acc + of_char c) 0 videoId"

text \<open>
  The global musical parameters: five draws (tempo, swing, mode, root, progression), in
  the order of the source. The swing flag has no effect on the notes.
\<close>

definition makeContext :: "int \<Rightarrow> real \<Rightarrow> real \<Rightarrow> GeneratorContext \<times> int" where
  "makeContext seed0 startT endT =
    (let (r1, seed1) = rng seed0;
         BPM = 80 + \<lfloor>r1 * 50\<rfloor>;
         BEAT = 60 / real_of_int BPM;
         (r2, seed2) = rng seed1;
         SWING_FEEL = (r2 > 0.6);
         (r3, seed3) = rng seed2;
         isMinor = (r3 > 0.5);
         (r4, seed4) = rng seed3;
         root = 58 + \<lfloor>r4 * 12\<rfloor>;
         scale = (if isMinor then [0, 2, 3, 5, 7, 8, 10] else [0, 2, 4, 5, 7, 9, 11]);
         (r5, seed5) = rng seed4;
         prog = PROGRESSIONS ! nat \<lfloor>r5 * real (length PROGRESSIONS)\<rfloor>
     in (\<lparr> BEAT_DURATION = BEAT, rootNote = root, scaleIntervals = scale,
            progression = prog, startTime = startT, endTime = endT \<rparr>, seed5))"

definition composeFrom :: "int \<Rightarrow> real \<Rightarrow> real \<Rightarrow> NoteEvent list" where
  "composeFrom seed0 startT endT =
    (let (ctx, seed) = makeContext seed0 startT endT;
         startBar = \<lfloor>startT / BAR_DURATION ctx\<rfloor>;
         endBar = \<lceil>endT / BAR_DURATION ctx\<rceil>;
         (seed', deg, notes) = barLoop ctx startBar endBar (seed, Some 0, [])
     in sort_key start_time notes)"

definition generateDeterministicNotes :: "string \<Rightarrow> real \<Rightarrow> real \<Rightarrow> NoteEvent list" where
  "generateDeterministicNotes videoId startT endT = composeFrom (seedOf videoId) startT endT"

section \<open>PitchTracker\<close>

text \<open>
  \<^verbatim>\<open>slice(start, end)\<close> of an array: a negative index counts from the end, and both
  indices are clamped to the array.
\<close>

definition js_slice :: "'a list \<Rightarrow> int \<Rightarrow> int \<Rightarrow> 'a list" where
  "js_slice xs start stop =
    (let len = int (length xs);
         k = (if start < 0 then max (len + start) 0 else min start len);
         final = (if stop < 0 then max (len + stop) 0 else min stop len)
     in take (nat (final - k)) (drop (nat k) xs))"

definition sumSq :: "real list \<Rightarrow> real" where
  "sumSq xs = sum_list (map (\<lambda>v. v * v) xs)"

definition rms :: "real list \<Rightarrow> real" where
  "rms xs = sqrt (sumSq xs / real (length xs))"

text \<open>
  The two trimming scans of \<^verbatim>\<open>autoCorrelate\<close>. Each runs over \<open>i < SIZE / 2\<close>,
  that is \<open>i < (SIZE + 1) div 2\<close>, and stops at the first sample below the threshold;
  \<open>r1\<close> keeps its initial 0 and \<open>r2\<close> its initial \<open>SIZE - 1\<close> when there is none.
\<close>

definition trimLeft :: "real list \<Rightarrow> int" where
  "trimLeft buffer =
    (case find (\<lambda>i. \<bar>buffer ! i\<bar> < 0.2) [0 ..< (length buffer + 1) div 2] of
       None \<Rightarrow> 0 | Some i \<Rightarrow> int i)"

definition trimRight :: "real list \<Rightarrow> int" where
  "trimRight buffer =
    (case find (\<lambda>i. \<bar>buffer ! (length buffer - i)\<bar> < 0.2) [1 ..< (length buffer + 1) div 2] of
       None \<Rightarrow> int (length buffer) - 1 | Some i \<Rightarrow> int (length buffer) - int i)"

text \<open>The unnormalised autocorrelation \<open>c[i] = \<Sum> j < n - i. x[j] * x[j + i]\<close>.\<close>

definition acf :: "real list \<Rightarrow> real list" where
  "acf x = map (\<lambda>i. sum_list (map (\<lambda>j. x ! j * x ! (j + i)) [0 ..< length x - i])) [0 ..< length x]"

text \<open>
  Reading an array past its end gives \<^verbatim>\<open>undefined\<close>, and a comparison with
  \<^verbatim>\<open>undefined\<close> is false.
\<close>

definition c_at :: "real list \<Rightarrow> nat \<Rightarrow> real option" where
  "c_at c i = (if i < length c then Some (c ! i) else None)"

definition js_gt :: "real option \<Rightarrow> real option \<Rightarrow> bool" where
  "js_gt a b = (case (a, b) of (Some x, Some y) \<Rightarrow> x > y | _ \<Rightarrow> False)"

text \<open>\<^verbatim>\<open>let d = 0; while (c[d] > c[d + 1]) d++;\<close>\<close>

function findDip :: "real list \<Rightarrow> nat \<Rightarrow> nat" where
  "findDip c d = (if js_gt (c_at c d) (c_at c (d + 1)) then findDip c (d + 1) else d)"
  by pat_completeness auto
termination
  by (relation "measure (\<lambda>(c, d). length c - d)")
     (auto simp: js_gt_def c_at_def split: if_splits)

declare findDip.simps [simp del]

text \<open>The search for the largest \<open>c[i]\<close> with \<open>i \<ge> d\<close>; the state is \<open>(maxval, maxpos)\<close>.\<close>

definition peakFrom :: "real list \<Rightarrow> nat \<Rightarrow> real \<times> int" where
  "peakFrom c d =
    foldl (\<lambda>(maxval, maxpos) i. if c ! i > maxval then (c ! i, int i) else (maxval, maxpos))
      (- 1, - 1) [d ..< length c]"

text \<open>The quotient \<^verbatim>\<open>sampleRate / T0\<close> of two finite numbers, as IEEE defines it.\<close>

definition js_div :: "real \<Rightarrow> int \<Rightarrow> jsnum" where
  "js_div a b =
    (if b \<noteq> 0 then Fin (a / real_of_int b)
     else if a > 0 then PosInf else if a < 0 then NegInf else NaN)"

text \<open>
  \<^verbatim>\<open>autoCorrelate(buffer, sampleRate)\<close>. On the empty buffer the root mean square is
  \<^verbatim>\<open>NaN\<close> and the energy test is false.
\<close>

definition autoCorrelate :: "real list \<Rightarrow> real \<Rightarrow> jsnum" where
  "autoCorrelate buffer sampleRate =
    (if buffer \<noteq> [] \<and> rms buffer < 0.01 then Fin (- 1)
     else
       (let r1 = trimLeft buffer;
            r2 = trimRight buffer;
            buffer2 = js_slice buffer r1 r2;
            c = acf buffer2;
            d = findDip c 0;
            T0 = snd (peakFrom c d)
        in if T0 = - 1 then Fin (- 1) else js_div sampleRate T0))"

section \<open>NoteSegmenter\<close>

record AudioBuffer =
  sampleRate :: real
  channelData :: "real list"

text \<open>The objects pushed during the sweep (\<^verbatim>\<open>start\<close>, \<^verbatim>\<open>duration\<close>, \<^verbatim>\<open>pitch\<close>, \<^verbatim>\<open>confidence\<close>).\<close>

record RawNote =
  n_start :: real
  n_duration :: real
  n_pitch :: pitch
  n_confidence :: real

record SweepState =
  currentNoteStart :: int
  currentNotePitch :: pitch
  framesInNote :: nat
  noteList :: "RawNote list"

text \<open>\<^verbatim>\<open>frequency > 0\<close>\<close>

definition js_positive :: "jsnum \<Rightarrow> bool" where
  "js_positive x = (case x of Fin f \<Rightarrow> f > 0 | PosInf \<Rightarrow> True | _ \<Rightarrow> False)"

text \<open>\<^verbatim>\<open>Math.round(69 + 12 * Math.log2(frequency / 440))\<close>, used on positive frequencies.\<close>

definition hzToMidi :: "jsnum \<Rightarrow> pitch" where
  "hzToMidi x =
    (case x of
       Fin f \<Rightarrow> if f > 0 then Pitch (round (69 + 12 * log 2 (f / 440))) else PitchNaN
     | PosInf \<Rightarrow> PitchInfinity
     | _ \<Rightarrow> PitchNaN)"

text \<open>
  \<^verbatim>\<open>Math.abs(midiPitch - currentNotePitch) > 1\<close>. The difference of two infinities is
  \<^verbatim>\<open>NaN\<close>, which is not greater than 1.
\<close>

definition pitchJump :: "pitch \<Rightarrow> pitch \<Rightarrow> bool" where
  "pitchJump a b =
    (case (a, b) of
       (Pitch x, Pitch y) \<Rightarrow> \<bar>x - y\<bar> > 1
     | (PitchInfinity, Pitch y) \<Rightarrow> True
     | (Pitch x, PitchInfinity) \<Rightarrow> True
     | _ \<Rightarrow> False)"

definition closeNote :: "real \<Rightarrow> real \<Rightarrow> int \<Rightarrow> real \<Rightarrow> SweepState \<Rightarrow> RawNote" where
  "closeNote sr startT stop conf st =
    \<lparr> n_start = startT + real_of_int (currentNoteStart st) / sr,
      n_duration = real_of_int (stop - currentNoteStart st) / sr,
      n_pitch = currentNotePitch st,
      n_confidence = conf \<rparr>"

text \<open>The body of the sweep for the window that starts at sample \<open>i\<close>.\<close>

definition processWindow :: "real \<Rightarrow> real \<Rightarrow> nat \<Rightarrow> real list \<Rightarrow> SweepState \<Rightarrow> SweepState" where
  "processWindow sr startT i chunk st =
    (if rms chunk < 0.02 then
       (if currentNoteStart st \<noteq> - 1 then
          st \<lparr> noteList := (if framesInNote st > 4
                          then noteList st @ [closeNote sr startT (int i) 0.8 st] else noteList st),
               currentNoteStart := - 1, framesInNote := 0 \<rparr>
        else st)
     else
       (let frequency = autoCorrelate chunk sr
        in if js_positive frequency then
             (let midiPitch = hzToMidi frequency
              in if currentNoteStart st = - 1 then
                   st \<lparr> currentNoteStart := int i, currentNotePitch := midiPitch, framesInNote := 1 \<rparr>
                 else if pitchJump midiPitch (currentNotePitch st) then
                   st \<lparr> noteList := (if framesInNote st > 4
                                   then noteList st @ [closeNote sr startT (int i) 0.85 st] else noteList st),
                        currentNoteStart := int i, currentNotePitch := midiPitch, framesInNote := 1 \<rparr>
                 else st \<lparr> framesInNote := framesInNote st + 1 \<rparr>)
           else st))"

text \<open>
  \<^verbatim>\<open>for (let i = 0; i < segmentData.length - windowSize; i += hopSize)\<close> with
  \<open>windowSize = 2048\<close> and \<open>hopSize = 1024\<close>.
\<close>

definition chunkAt :: "real list \<Rightarrow> nat \<Rightarrow> real list" where
  "chunkAt segmentData i = js_slice segmentData (int i) (int i + 2048)"

function sweep :: "real \<Rightarrow> real \<Rightarrow> real list \<Rightarrow> nat \<Rightarrow> SweepState \<Rightarrow> SweepState" where
  "sweep sr startT segmentData i st =
    (if int i < int (length segmentData) - 2048 then
       sweep sr startT segmentData (i + 1024)
         (processWindow sr startT i (chunkAt segmentData i) st)
     else st)"
  by pat_completeness auto
termination
  by (relation "measure (\<lambda>(sr, startT, segmentData, i, st). length segmentData - i)") auto

declare sweep.simps [simp del]

text \<open>The note still open when the sweep ends.\<close>

definition closeFinal :: "real \<Rightarrow> real \<Rightarrow> real list \<Rightarrow> SweepState \<Rightarrow> RawNote list" where
  "closeFinal sr startT segmentData st =
    (if currentNoteStart st \<noteq> - 1 \<and> framesInNote st > 4 then
       noteList st @ [closeNote sr startT (int (length segmentData)) 0.85 st]
     else noteList st)"

definition toEvent :: "RawNote \<times> nat \<Rightarrow> NoteEvent" where
  "toEvent p =
    (let n = fst p; idx = snd p
     in \<lparr> ident = RealId \<lfloor>n_start n * 1000\<rfloor> idx,
          start_time = n_start n,
          duration = max 0.1 (n_duration n),
          midi_pitch = n_pitch n,
          velocity = 0.7,
          confidence = n_confidence n \<rparr>)"

text \<open>
  The slice of channel 0 that is analysed:
  \<^verbatim>\<open>channelData.slice(Math.max(0, startSample), Math.min(channelData.length, endSample))\<close>.
\<close>

definition segmentOf :: "AudioBuffer \<Rightarrow> real \<Rightarrow> real \<Rightarrow> real list" where
  "segmentOf audioBuffer startT dur =
    (let sr = sampleRate audioBuffer;
         startSample = \<lfloor>startT * sr\<rfloor>;
         endSample = \<lfloor>(startT + dur) * sr\<rfloor>
     in js_slice (channelData audioBuffer) (max 0 startSample)
          (min (int (length (channelData audioBuffer))) endSample))"

definition initialState :: SweepState where
  "initialState =
    \<lparr> currentNoteStart = - 1, currentNotePitch = Pitch (- 1), framesInNote = 0, noteList = [] \<rparr>"

definition analyzeAudioSegment :: "AudioBuffer \<Rightarrow> real \<Rightarrow> real \<Rightarrow> NoteEvent list" where
  "analyzeAudioSegment audioBuffer startT dur =
    (let sr = sampleRate audioBuffer;
         segmentData = segmentOf audioBuffer startT dur;
         st = sweep sr startT segmentData 0 initialState;
         raw = closeFinal sr startT segmentData st
     in map toEvent (zip raw [0 ..< length raw]))"

section \<open>Vocabulary of the claims about the segmenter\<close>

text \<open>
  The start indices the sweep visits: the multiples \<open>i\<close> of 1024 with
  \<open>i < length - 2048\<close>. A segment of at most 2048 samples has none.
\<close>

definition windowStarts :: "real list \<Rightarrow> nat list" where
  "windowStarts segmentData =
    map (\<lambda>k. 1024 * k) [0 ..< (length segmentData - 2048 + 1023) div 1024]"

definition allWindowsSilent :: "real list \<Rightarrow> bool" where
  "allWindowsSilent segmentData =
    list_all (\<lambda>i. rms (chunkAt segmentData i) < 0.02) (windowStarts segmentData)"

text \<open>
  A segment of 3073 samples whose two analysis windows carry energy but have no resolvable
  period: in the first, the autocorrelation of the trimmed frame falls all the way to
  \<open>-1\<close>; in the second, trimming leaves two samples of opposite sign.
\<close>

definition gapSegment :: "real list" where
  "gapSegment = replicate 2046 1 @ [- 1, 1/10, - 10, 0] @ replicate 1023 1"

definition heldNote :: SweepState where
  "heldNote = \<lparr> currentNoteStart = 0, currentNotePitch = Pitch 60, framesInNote = 4, noteList = [] \<rparr>"

text \<open>
  The invariant of the sweep at window index \<open>i\<close>: the notes pushed so far are sorted by
  start, none starts after \<open>i\<close>, and an open note starts at or before \<open>i\<close> and at or
  after every pushed note.
\<close>

definition sweepInv :: "real \<Rightarrow> real \<Rightarrow> nat \<Rightarrow> SweepState \<Rightarrow> bool" where
  "sweepInv sr t i st \<longleftrightarrow>
     sorted (map n_start (noteList st))
     \<and> (\<forall>n\<in>set (noteList st). n_start n \<le> t + real i / sr)
     \<and> (currentNoteStart st \<noteq> - 1 \<longrightarrow>
           currentNoteStart st \<le> int i
           \<and> (\<forall>n\<in>set (noteList st). n_start n \<le> t + real_of_int (currentNoteStart st) / sr))"

text \<open>
  A frame of 2048 samples at half scale with three zero samples in the middle: the two
  trimming scans meet around the zeros and leave the two-sample sub-frame \<open>[0, 0]\<close>.
\<close>

definition zeroGapFrame :: "real list" where
  "zeroGapFrame = replicate 1023 (1/2) @ [0, 0, 0] @ replicate 1022 (1/2)"

section \<open>Vocabulary of the claims about the generator\<close>

definition inWindow :: "GeneratorContext \<Rightarrow> real \<Rightarrow> bool" where
  "inWindow ctx t \<longleftrightarrow> startTime ctx \<le> t \<and> t < endTime ctx"

text \<open>The bar an identifier names.\<close>

definition barOf :: "note_id \<Rightarrow> int" where
  "barOf i = (case i of BassId b k \<Rightarrow> b | HarmId b k \<Rightarrow> b | MelId b c r \<Rightarrow> b | RealId m k \<Rightarrow> 0)"

text \<open>The two bass notes of a bar as the bass layer builds them.\<close>

definition bassDownbeat :: "GeneratorContext \<Rightarrow> int \<Rightarrow> NoteEvent" where
  "bassDownbeat ctx bar =
    \<lparr> ident = BassId bar 1, start_time = real_of_int bar * BAR_DURATION ctx,
      duration = BEAT_DURATION ctx * 1.2,
      midi_pitch = getMidiPitch ctx (chordAt ctx bar) (- 2),
      velocity = 0.85, confidence = 0.98 \<rparr>"

definition bassSecond :: "GeneratorContext \<Rightarrow> int \<Rightarrow> int \<Rightarrow> NoteEvent" where
  "bassSecond ctx bar interval =
    \<lparr> ident = BassId bar 3,
      start_time = real_of_int bar * BAR_DURATION ctx + BEAT_DURATION ctx * 2,
      duration = BEAT_DURATION ctx,
      midi_pitch = getMidiPitch ctx (degree_plus (chordAt ctx bar) interval) (- 2),
      velocity = 0.75, confidence = 0.9 \<rparr>"

text \<open>
  What an event of the generator looks like, read off its identifier: the bass notes are
  one of the two records above, a harmony or melody note lies in the window at the time
  its identifier names.
\<close>

definition noteOK :: "GeneratorContext \<Rightarrow> NoteEvent \<Rightarrow> bool" where
  "noteOK ctx n =
    (case ident n of
       BassId bar k \<Rightarrow>
         (if k = 1 then n = bassDownbeat ctx bar
                        \<and> max (startTime ctx) (real_of_int bar * BAR_DURATION ctx) < endTime ctx
          else k = 3 \<and> (n = bassSecond ctx bar 0 \<or> n = bassSecond ctx bar 4)
               \<and> inWindow ctx (start_time n))
     | HarmId bar idx \<Rightarrow>
         idx < 3 \<and> inWindow ctx (start_time n)
         \<and> start_time n = real_of_int bar * BAR_DURATION ctx + BEAT_DURATION ctx + real idx * 0.03
         \<and> midi_pitch n = getMidiPitch ctx (degree_plus (chordAt ctx bar) (2 * int idx)) (- 1)
     | MelId bar cb r \<Rightarrow>
         inWindow ctx (start_time n)
         \<and> start_time n = real_of_int bar * BAR_DURATION ctx + cb * BEAT_DURATION ctx
     | RealId m k \<Rightarrow> False)"

text \<open>
  The invariant of the bar loop on the notes pushed so far: identifiers are pairwise
  distinct, and every note is well formed and belongs to a bar from \<open>lo\<close> up to, but
  not including, \<open>hi\<close>.
\<close>

definition notesInv :: "GeneratorContext \<Rightarrow> int \<Rightarrow> int \<Rightarrow> NoteEvent list \<Rightarrow> bool" where
  "notesInv ctx lo hi ns \<longleftrightarrow>
     distinct (map ident ns)
     \<and> list_all (\<lambda>n. noteOK ctx n \<and> lo \<le> barOf (ident n) \<and> barOf (ident n) < hi) ns"

text \<open>The same inside the melody loop of bar \<open>b\<close>, at beat position \<open>cb\<close>.\<close>

definition melodyBefore :: "int \<Rightarrow> real \<Rightarrow> note_id \<Rightarrow> bool" where
  "melodyBefore b cb i = (case i of MelId b' c r \<Rightarrow> b' = b \<longrightarrow> c < cb | _ \<Rightarrow> True)"

definition melodyInv :: "GeneratorContext \<Rightarrow> int \<Rightarrow> int \<Rightarrow> real \<Rightarrow> NoteEvent list \<Rightarrow> bool" where
  "melodyInv ctx lo b cb ns \<longleftrightarrow>
     notesInv ctx lo (b + 1) ns \<and> list_all (\<lambda>n. melodyBefore b cb (ident n)) ns"

text \<open>The context a call derives from its seed, and its bar length.\<close>

definition contextOf :: "int \<Rightarrow> real \<Rightarrow> real \<Rightarrow> GeneratorContext" where
  "contextOf seed0 startT endT = fst (makeContext seed0 startT endT)"

definition barDurationOf :: "string \<Rightarrow> real" where
  "barDurationOf videoId = BAR_DURATION (contextOf (seedOf videoId) 0 0)"

text \<open>
  The context of the seed \<^verbatim>\<open>"aa"\<close> (character codes 97 + 97): 120 beats per
  minute, so a beat lasts half a second and a bar two seconds; root 60, minor scale,
  progression vi, IV, I, V.
\<close>

definition ctxAA :: "real \<Rightarrow> real \<Rightarrow> GeneratorContext" where
  "ctxAA s e = \<lparr> BEAT_DURATION = 1 / 2, rootNote = 60, scaleIntervals = [0, 2, 3, 5, 7, 8, 10],
                 progression = [5, 3, 0, 4], startTime = s, endTime = e \<rparr>"

text \<open>
  The musical content of a note (everything but its identifier), and the content of the
  notes of a list that start inside bar \<open>b\<close> for a bar length \<open>len\<close>.
\<close>

definition content :: "NoteEvent \<Rightarrow> real \<times> real \<times> pitch \<times> real \<times> real" where
  "content n = (start_time n, duration n, midi_pitch n, velocity n, confidence n)"

definition barContent :: "real \<Rightarrow> int \<Rightarrow> NoteEvent list \<Rightarrow> (real \<times> real \<times> pitch \<times> real \<times> real) list" where
  "barContent len b ns =
    map content (filter (\<lambda>n. real_of_int b * len \<le> start_time n \<and> start_time n < real_of_int (b + 1) * len) ns)"

definition windowContainsBar :: "real \<Rightarrow> real \<Rightarrow> real \<Rightarrow> int \<Rightarrow> bool" where
  "windowContainsBar len s e b \<longleftrightarrow> s \<le> real_of_int b * len \<and> real_of_int (b + 1) * len \<le> e"

text \<open>
  The contexts \<^verbatim>\<open>makeContext\<close> can build: root from 58 to 69, one of the two scales,
  one of the four progressions, a positive beat length.
\<close>

definition wfContext :: "GeneratorContext \<Rightarrow> bool" where
  "wfContext ctx \<longleftrightarrow>
     58 \<le> rootNote ctx \<and> rootNote ctx \<le> 69
     \<and> (scaleIntervals ctx = [0, 2, 3, 5, 7, 8, 10] \<or> scaleIntervals ctx = [0, 2, 4, 5, 7, 9, 11])
     \<and> progression ctx \<in> set PROGRESSIONS
     \<and> 0 < BEAT_DURATION ctx"

text \<open>The pitch of a scale degree at octave offset 0, as an integer.\<close>

definition pitchOf :: "GeneratorContext \<Rightarrow> int \<Rightarrow> int" where
  "pitchOf ctx d = rootNote ctx + (d div 7) * 12 + scaleIntervals ctx ! nat (d mod 7)"

definition pitchBetween :: "int \<Rightarrow> int \<Rightarrow> pitch \<Rightarrow> bool" where
  "pitchBetween lo hi p = (case p of Pitch k \<Rightarrow> lo \<le> k \<and> k \<le> hi | _ \<Rightarrow> False)"

text \<open>The carried melody degree is a number whose pitch lies between 58 and 84.\<close>

definition degreeInv :: "GeneratorContext \<Rightarrow> int option \<Rightarrow> bool" where
  "degreeInv ctx deg = (case deg of None \<Rightarrow> False | Some d \<Rightarrow> 58 \<le> pitchOf ctx d \<and> pitchOf ctx d \<le> 84)"

text \<open>
  The pitch ranges of the three layers of the generator: bass two octaves below the chord
  tones, harmony one octave below, melody inside the range clamp.
\<close>

definition composedPitchOK :: "NoteEvent \<Rightarrow> bool" where
  "composedPitchOK n =
    (case ident n of
       BassId bar k \<Rightarrow> pitchBetween 34 61 (midi_pitch n)
     | HarmId bar idx \<Rightarrow> pitchBetween 46 73 (midi_pitch n)
     | MelId bar cb r \<Rightarrow> pitchBetween 60 84 (midi_pitch n)
     | RealId m k \<Rightarrow> False)"

text \<open>
  The bar loop and the final sort of the generator for a context, a cursor and two bar
  bounds: the generator runs them on the context it derives from the seed and on the
  bounds \<^verbatim>\<open>Math.floor(startTime / BAR_DURATION)\<close> and
  \<^verbatim>\<open>Math.ceil(endTime / BAR_DURATION)\<close>. The code computes the beat length and the
  two quotients in double precision, where the model has exact reals, so the bounds of the
  code can differ by one from those of the model when a quotient lies within rounding
  distance of an integer.
\<close>

definition composeWith :: "GeneratorContext \<Rightarrow> int \<Rightarrow> int \<Rightarrow> int \<Rightarrow> NoteEvent list" where
  "composeWith ctx seed startBar endBar =
    (let (seed', deg, notes) = barLoop ctx startBar endBar (seed, Some 0, [])
     in sort_key start_time notes)"

text \<open>
  The frequencies the sweep converts to a pitch: the values of the estimator on the windows
  that pass the volume gate, where they are positive.
\<close>

definition trackedFrequencies :: "real \<Rightarrow> real list \<Rightarrow> jsnum list" where
  "trackedFrequencies sr segmentData =
    filter js_positive
      (map (\<lambda>i. autoCorrelate (chunkAt segmentData i) sr)
         (filter (\<lambda>i. \<not> rms (chunkAt segmentData i) < 0.02) (windowStarts segmentData)))"

text \<open>The frequencies whose conversion lies between 0 and 127.\<close>

definition inMidiBand :: "jsnum \<Rightarrow> bool" where
  "inMidiBand x =
    (case x of
       Fin f \<Rightarrow> 2 powr (- 139 / 24) \<le> f / 440 \<and> f / 440 < 2 powr (117 / 24)
     | _ \<Rightarrow> False)"


section \<open>SeedStream: range and agreement with the specified mixing sequence\<close>

lemma uint32_unit_interval:
  "0 \<le> real_of_int (uint (w :: 32 word)) / 4294967296 \<and> real_of_int (uint w) / 4294967296 < 1"
proof -
  have aux: "\<And>x::real. 0 \<le> x \<Longrightarrow> x < 4294967296 \<Longrightarrow> 0 \<le> x / 4294967296 \<and> x / 4294967296 < 1"
    by simp
  have "uint w < 4294967296" using uint_bounded [of w] by simp
  then have "real_of_int (uint w) < real_of_int 4294967296" by (simp only: of_int_less_iff)
  then have h2: "real_of_int (uint w) < 4294967296" by (simp only: of_int_numeral)
  have h1: "0 \<le> real_of_int (uint w)" by (simp only: of_int_0_le_iff uint_ge_0)
  show ?thesis by (rule aux [OF h1 h2])
qed

lemma getSeededRandom_range: "0 \<le> getSeededRandom s \<and> getSeededRandom s < 1"
  unfolding getSeededRandom_def Let_def by (rule uint32_unit_interval)

lemma getSeededRandom_ge0 [simp]: "0 \<le> getSeededRandom s"
  using getSeededRandom_range by blast

lemma getSeededRandom_lt1 [simp]: "getSeededRandom s < 1"
  using getSeededRandom_range by blast

lemma div_mod32: "u < 2 ^ 32 \<Longrightarrow> (u div k) mod (2 ^ 32 :: nat) = u div k"
  by (meson div_le_dividend le_less_trans mod_less)

lemma getSeededRandom_nat: "getSeededRandom (int n) = spec_next n"
proof -
  define t0 :: "32 word" where "t0 = word_of_int (int n + 0x6D2B79F5)"
  define t1 where "t1 = (t0 XOR drop_bit 15 t0) * (t0 OR 1)"
  define t2 where "t2 = t1 XOR (t1 + (t1 XOR drop_bit 7 t1) * (t1 OR 61))"
  define u0 where "u0 = (n + 0x6D2B79F5) mod (2 ^ 32 :: nat)"
  define u1 where "u1 = ((u0 XOR (u0 div 2 ^ 15)) * (u0 OR 1)) mod (2 ^ 32 :: nat)"
  define u2 where
    "u2 = u1 XOR ((u1 + ((u1 XOR (u1 div 2 ^ 7)) * (u1 OR 61)) mod 2 ^ 32) mod (2 ^ 32 :: nat))"
  have b0: "u0 < 2 ^ 32" and b1: "u1 < 2 ^ 32" by (simp_all add: u0_def u1_def)
  have a0: "unat t0 = u0"
  proof -
    have "t0 = word_of_nat (n + 0x6D2B79F5)" by (simp add: t0_def)
    then show ?thesis unfolding u0_def by (simp only: unat_of_nat) simp
  qed
  have a1: "unat t1 = u1"
    unfolding t1_def u1_def using div_mod32 [OF b0]
    by (simp add: unat_word_ariths unsigned_xor_eq unsigned_or_eq unat_drop_bit_eq a0 drop_bit_eq_div)
  have a2: "unat t2 = u2"
    unfolding t2_def u2_def using div_mod32 [OF b1]
    by (simp add: unat_word_ariths unsigned_xor_eq unsigned_or_eq unat_drop_bit_eq a1
        drop_bit_eq_div mod_simps)
  have a3: "unat (t2 XOR drop_bit 14 t2) = u2 XOR (u2 div 2 ^ 14)"
    by (simp add: unsigned_xor_eq unat_drop_bit_eq a2 drop_bit_eq_div unat_div)
  have "getSeededRandom (int n) = real_of_int (uint (t2 XOR drop_bit 14 t2)) / 4294967296"
    by (simp add: getSeededRandom_def Let_def t0_def t1_def t2_def)
  also have "real_of_int (uint (t2 XOR drop_bit 14 t2)) = real (unat (t2 XOR drop_bit 14 t2))"
    by simp
  also have "\<dots> / 4294967296 = spec_next n"
    unfolding a3 by (simp add: spec_next_def Let_def u0_def u1_def u2_def)
  finally show ?thesis .
qed

lemma getSeededRandom_mod: "getSeededRandom (s mod 2 ^ 32) = getSeededRandom s"
proof -
  have "s mod 2 ^ 32 = s - 2 ^ 32 * (s div 2 ^ 32)"
    by (simp add: minus_mult_div_eq_mod mult.commute)
  then have "(word_of_int (s mod 2 ^ 32) :: 32 word)
      = word_of_int s - word_of_int (2 ^ 32) * word_of_int (s div 2 ^ 32)"
    by (simp only: of_int_diff of_int_mult)
  also have "(word_of_int (2 ^ 32) :: 32 word) = 0"
    using word_of_int_2p_len [where ?'a = 32] by simp
  finally have "(word_of_int (s mod 2 ^ 32) :: 32 word) = word_of_int s"
    by simp
  then have "(word_of_int (s mod 2 ^ 32 + 0x6D2B79F5) :: 32 word) = word_of_int (s + 0x6D2B79F5)"
    by (simp only: of_int_add)
  then show ?thesis by (simp only: getSeededRandom_def)
qed

text \<open>
  Claim C9. One draw of the seeded random source is a function of the cursor alone, lies
  in the half-open interval from 0 to 1, and is the value of the specified mixing sequence
  (add the constant, xor-shift by 15 and multiply by the state or 1, the add/xor step with
  the state or 61, xor-shift by 14, divide the unsigned result by \<open>2^32\<close>), every step
  modulo \<open>2^32\<close>, applied to the cursor read as an unsigned 32-bit integer.
\<close>

theorem seeded_random_unit_interval_and_mixing:
  "0 \<le> getSeededRandom state \<and> getSeededRandom state < 1
   \<and> getSeededRandom state = spec_next (nat (state mod 2 ^ 32))
   \<and> fst (rng state) = getSeededRandom state \<and> snd (rng state) = state + 1"
proof -
  have "int (nat (state mod 2 ^ 32)) = state mod 2 ^ 32"
    by simp
  then have "getSeededRandom state = getSeededRandom (int (nat (state mod 2 ^ 32)))"
    by (simp only: getSeededRandom_mod)
  also have "\<dots> = spec_next (nat (state mod 2 ^ 32))"
    by (rule getSeededRandom_nat)
  finally have eq: "getSeededRandom state = spec_next (nat (state mod 2 ^ 32))" .
  show ?thesis
    using eq getSeededRandom_range [of state] by (simp only: rng_def fst_conv snd_conv)
qed

section \<open>The sweep: invariants and silent input\<close>

lemma sweep_invariant:
  assumes "I i st"
    and "\<And>j s. I j s \<Longrightarrow> int j < int (length seg) - 2048
            \<Longrightarrow> I (j + 1024) (processWindow sr t j (chunkAt seg j) s)"
  shows "\<exists>j. I j (sweep sr t seg i st) \<and> \<not> int j < int (length seg) - 2048"
  using assms(1)
proof (induction "length seg - i" arbitrary: i st rule: less_induct)
  case less
  show ?case
  proof (cases "int i < int (length seg) - 2048")
    case True
    have step: "I (i + 1024) (processWindow sr t i (chunkAt seg i) st)"
      using assms(2) less.prems True by blast
    have "length seg - (i + 1024) < length seg - i"
      using True by linarith
    from less.hyps [OF this step] show ?thesis
      using True by (subst sweep.simps) simp
  next
    case False
    then show ?thesis using less.prems by (subst sweep.simps) auto
  qed
qed

lemma rms_less_iff: "0 < t \<Longrightarrow> rms xs < t \<longleftrightarrow> sumSq xs / real (length xs) < t\<^sup>2"
  unfolding rms_def
  by (metis real_sqrt_less_iff real_sqrt_abs abs_of_pos)

lemma sumSq_nonneg: "0 \<le> sumSq xs"
  unfolding sumSq_def by (induction xs) auto

lemma processWindow_silent_closed:
  "rms chunk < 0.02 \<Longrightarrow> currentNoteStart st = - 1 \<Longrightarrow> processWindow sr t i chunk st = st"
  by (simp add: processWindow_def)

lemma processWindow_unvoiced:
  "\<not> rms chunk < 0.02 \<Longrightarrow> autoCorrelate chunk sr = Fin (- 1) \<Longrightarrow> processWindow sr t i chunk st = st"
  by (simp add: processWindow_def js_positive_def)

lemma sweep_skip:
  assumes "\<forall>k<n. int (i + 1024 * k) < int (length seg) - 2048
             \<and> processWindow sr t (i + 1024 * k) (chunkAt seg (i + 1024 * k)) st = st"
  shows "sweep sr t seg i st = sweep sr t seg (i + 1024 * n) st"
  using assms
proof (induction n arbitrary: i)
  case 0
  then show ?case by simp
next
  case (Suc n)
  from Suc.prems have h0: "int i < int (length seg) - 2048"
    and p0: "processWindow sr t i (chunkAt seg i) st = st"
    by force+
  have "\<forall>k<n. int (i + 1024 + 1024 * k) < int (length seg) - 2048
          \<and> processWindow sr t (i + 1024 + 1024 * k) (chunkAt seg (i + 1024 + 1024 * k)) st = st"
  proof (intro allI impI)
    fix k assume "k < n"
    then have "Suc k < Suc n" by simp
    from Suc.prems [rule_format, OF this] show
      "int (i + 1024 + 1024 * k) < int (length seg) - 2048
          \<and> processWindow sr t (i + 1024 + 1024 * k) (chunkAt seg (i + 1024 + 1024 * k)) st = st"
      by (simp add: algebra_simps)
  qed
  from Suc.IH [OF this] have "sweep sr t seg (i + 1024) st = sweep sr t seg (i + 1024 + 1024 * n) st" .
  moreover have "sweep sr t seg i st = sweep sr t seg (i + 1024) st"
    using h0 p0 by (subst sweep.simps) simp
  ultimately show ?case by (simp add: algebra_simps)
qed

lemma find_upt_first:
  assumes "a \<le> m" "m < b" "P m" "\<forall>j. a \<le> j \<and> j < m \<longrightarrow> \<not> P j"
  shows "find P [a ..< b] = Some m"
proof -
  have "\<exists>i<length [a ..< b]. P ([a ..< b] ! i) \<and> m = [a ..< b] ! i \<and> (\<forall>j<i. \<not> P ([a ..< b] ! j))"
    using assms by (intro exI [of _ "m - a"]) auto
  then show ?thesis by (simp only: find_Some_iff)
qed

lemma find_upt_none:
  assumes "\<forall>j. a \<le> j \<and> j < b \<longrightarrow> \<not> P j"
  shows "find P [a ..< b] = None"
  using assms by (simp add: find_None_iff)

lemma windowStarts_visited:
  assumes "1024 dvd j" "int j < int (length seg) - 2048"
  shows "j \<in> set (windowStarts seg)"
proof -
  from assms(1) obtain k where k: "j = 1024 * k" by (auto simp: dvd_def)
  have "j + 2048 < length seg"
    using assms(2) by linarith
  then have "1024 * (k + 1) \<le> length seg - 2048 + 1023"
    using k by simp
  then have "(1024 * (k + 1)) div 1024 \<le> (length seg - 2048 + 1023) div 1024"
    by (rule div_le_mono)
  then have "k < (length seg - 2048 + 1023) div 1024"
    by simp
  then show ?thesis unfolding windowStarts_def k by simp
qed

lemma sweep_silent:
  assumes "allWindowsSilent seg" "currentNoteStart st = - 1"
  shows "sweep sr t seg 0 st = st"
proof -
  have "\<exists>j. (1024 dvd j \<and> sweep sr t seg 0 st = st) \<and> \<not> int j < int (length seg) - 2048"
  proof (rule sweep_invariant [where I = "\<lambda>j s. 1024 dvd j \<and> s = st"])
    show "1024 dvd (0::nat) \<and> st = st" by simp
  next
    fix j s
    assume a: "1024 dvd j \<and> s = st" and b: "int j < int (length seg) - 2048"
    then have "j \<in> set (windowStarts seg)" using windowStarts_visited by blast
    then have "rms (chunkAt seg j) < 0.02"
      using assms(1) by (simp add: allWindowsSilent_def list_all_iff)
    then show "1024 dvd (j + 1024) \<and> processWindow sr t j (chunkAt seg j) s = st"
      using a assms(2) by (simp add: processWindow_silent_closed)
  qed
  then show ?thesis by blast
qed

lemma analyze_silent:
  assumes "allWindowsSilent (segmentOf b t d)"
  shows "analyzeAudioSegment b t d = []"
proof -
  have "sweep (sampleRate b) t (segmentOf b t d) 0 initialState = initialState"
    using assms by (rule sweep_silent) (simp add: initialState_def)
  then show ?thesis
    by (simp add: analyzeAudioSegment_def Let_def closeFinal_def initialState_def)
qed

lemma windowStarts_short: "length seg \<le> 2048 \<Longrightarrow> windowStarts seg = []"
  by (simp add: windowStarts_def)

lemma length_js_slice_le: "length (js_slice xs a b) \<le> length xs"
proof -
  have "length (take n (drop k xs)) \<le> length xs" for n k
    by (rule le_trans [of _ "length (drop k xs)"]) simp_all
  then show ?thesis by (simp only: js_slice_def Let_def)
qed

lemma set_js_slice: "set (js_slice xs a b) \<subseteq> set xs"
  unfolding js_slice_def Let_def
  by (meson set_take_subset set_drop_subset subset_trans)

lemma rms_zero: "set xs \<subseteq> {0} \<Longrightarrow> rms xs = 0"
proof -
  assume a: "set xs \<subseteq> {0}"
  have "sumSq xs = 0" unfolding sumSq_def using a by (induction xs) auto
  then show ?thesis by (simp add: rms_def)
qed

lemma zero_buffer_silent:
  assumes "set (channelData b) \<subseteq> {0}"
  shows "allWindowsSilent (segmentOf b t d)"
proof -
  have "set (segmentOf b t d) \<subseteq> {0}"
    unfolding segmentOf_def Let_def using assms set_js_slice by fastforce
  then have "\<And>i. set (chunkAt (segmentOf b t d) i) \<subseteq> {0}"
    unfolding chunkAt_def using set_js_slice by fastforce
  then have "\<And>i. rms (chunkAt (segmentOf b t d) i) = 0" by (rule rms_zero)
  then show ?thesis by (simp add: allWindowsSilent_def list_all_iff)
qed

lemma short_buffer_silent:
  assumes "length (channelData b) \<le> 2048"
  shows "allWindowsSilent (segmentOf b t d)"
proof -
  have "length (segmentOf b t d) \<le> length (channelData b)"
    unfolding segmentOf_def Let_def by (rule length_js_slice_le)
  then show ?thesis using assms by (simp add: allWindowsSilent_def windowStarts_short)
qed


lemma acf_unvoiced: "acf [1/10, - 10] = [10001 / 100, - 1]"
  by (simp add: acf_def upt_rec)

lemma findDip_unvoiced: "findDip [10001 / 100, - 1] 0 = 1"
  by (simp add: findDip.simps js_gt_def c_at_def)

lemma peak_unvoiced: "peakFrom [10001 / 100, - 1] 1 = (- 1, - 1)"
  by (simp add: peakFrom_def upt_rec)

lemma rms_silence_threshold: "rms xs < 0.02 \<longleftrightarrow> sumSq xs / real (length xs) < 0.0004"
proof -
  have "(0.02::real)\<^sup>2 = 0.0004" by (simp add: power2_eq_square)
  moreover have "rms xs < 0.02 \<longleftrightarrow> sumSq xs / real (length xs) < (0.02)\<^sup>2"
    by (rule rms_less_iff) simp
  ultimately show ?thesis by (simp only:)
qed

lemma rms_signal_threshold: "rms xs < 0.01 \<longleftrightarrow> sumSq xs / real (length xs) < 0.0001"
proof -
  have "(0.01::real)\<^sup>2 = 0.0001" by (simp add: power2_eq_square)
  moreover have "rms xs < 0.01 \<longleftrightarrow> sumSq xs / real (length xs) < (0.01)\<^sup>2"
    by (rule rms_less_iff) simp
  ultimately show ?thesis by (simp only:)
qed



section \<open>Autocorrelation of particular frames\<close>

lemma acf_nth:
  "i < length x \<Longrightarrow> acf x ! i = sum_list (map (\<lambda>j. x ! j * x ! (j + i)) [0 ..< length x - i])"
  by (simp add: acf_def)

lemma length_acf [simp]: "length (acf x) = length x"
  by (simp add: acf_def)

lemma sum_list_const_upt: "sum_list (map (\<lambda>j. (c::real)) [0 ..< k]) = real k * c"
  by (induction k) (simp_all add: algebra_simps)

lemma acf_replicate_nth:
  assumes "i < n"
  shows "acf (replicate n a) ! i = real (n - i) * (a * a)"
proof -
  have "map (\<lambda>j. replicate n a ! j * replicate n a ! (j + i)) [0 ..< n - i] = map (\<lambda>j. a * a) [0 ..< n - i]"
    by (rule map_cong) (use assms in auto)
  then have "sum_list (map (\<lambda>j. replicate n a ! j * replicate n a ! (j + i)) [0 ..< n - i])
      = real (n - i) * (a * a)"
    by (simp only: sum_list_const_upt)
  then show ?thesis using assms by (simp only: acf_nth length_replicate)
qed

lemma acf_ones_neg_nth:
  assumes "1 \<le> i" "i \<le> m"
  shows "acf (replicate m 1 @ [- 1]) ! i = real (m - i) - 1"
proof -
  let ?x = "replicate m (1::real) @ [- 1]"
  have len: "length ?x - i = Suc (m - i)" using assms by simp
  have body: "map (\<lambda>j. ?x ! j * ?x ! (j + i)) [0 ..< m - i] = map (\<lambda>j. 1) [0 ..< m - i]"
    by (rule map_cong) (use assms in \<open>auto simp: nth_append\<close>)
  have last: "?x ! (m - i) * ?x ! (m - i + i) = - 1"
    using assms by (simp add: nth_append)
  have "acf ?x ! i = sum_list (map (\<lambda>j. ?x ! j * ?x ! (j + i)) [0 ..< Suc (m - i)])"
    using assms len by (simp add: acf_nth)
  also have "\<dots> = sum_list (map (\<lambda>j. ?x ! j * ?x ! (j + i)) [0 ..< m - i]) + ?x ! (m - i) * ?x ! (m - i + i)"
    by simp
  also have "\<dots> = real (m - i) - 1"
    unfolding body last by (simp add: sum_list_const_upt)
  finally show ?thesis .
qed

lemma acf_ones_neg_0: "acf (replicate m 1 @ [- 1]) ! 0 = real m + 1"
proof -
  let ?x = "replicate m (1::real) @ [- 1]"
  have body: "map (\<lambda>j. ?x ! j * ?x ! (j + 0)) [0 ..< m] = map (\<lambda>j. 1) [0 ..< m]"
    by (rule map_cong) (auto simp: nth_append)
  have "acf ?x ! 0 = sum_list (map (\<lambda>j. ?x ! j * ?x ! (j + 0)) [0 ..< Suc m])"
    by (simp add: acf_nth)
  also have "\<dots> = sum_list (map (\<lambda>j. ?x ! j * ?x ! (j + 0)) [0 ..< m]) + ?x ! m * ?x ! m"
    by simp
  also have "\<dots> = real m + 1"
    unfolding body by (simp add: sum_list_const_upt nth_append)
  finally show ?thesis .
qed

text \<open>On a strictly decreasing array the dip search runs to the last index.\<close>

lemma findDip_decreasing:
  assumes "d < length c" "\<forall>j. d \<le> j \<and> j + 1 < length c \<longrightarrow> c ! j > c ! (j + 1)"
  shows "findDip c d = length c - 1"
  using assms
proof (induction "length c - d" arbitrary: d rule: less_induct)
  case less
  show ?case
  proof (cases "d + 1 < length c")
    case True
    then have "js_gt (c_at c d) (c_at c (d + 1))"
      using less.prems by (simp add: js_gt_def c_at_def)
    moreover have "findDip c (d + 1) = length c - 1"
      by (rule less.hyps) (use True less.prems in auto)
    ultimately show ?thesis by (subst findDip.simps) simp
  next
    case False
    then have "\<not> js_gt (c_at c d) (c_at c (d + 1))"
      by (simp add: js_gt_def c_at_def)
    moreover have "d = length c - 1" using False less.prems(1) by linarith
    ultimately show ?thesis by (subst findDip.simps) simp
  qed
qed

lemma peakFrom_last:
  assumes "c \<noteq> []"
  shows "peakFrom c (length c - 1) =
          (if c ! (length c - 1) > - 1 then (c ! (length c - 1), int (length c) - 1) else (- 1, - 1))"
proof -
  have "[length c - 1 ..< length c] = [length c - 1]"
    using assms by (cases c rule: rev_cases) (simp_all add: upt_rec)
  then show ?thesis using assms
    by (simp add: peakFrom_def Suc_leI)
qed

text \<open>A loud constant frame: nothing is trimmed and the autocorrelation decreases throughout.\<close>

lemma trimLeft_replicate: "\<not> \<bar>a\<bar> < 0.2 \<Longrightarrow> trimLeft (replicate n a) = 0"
proof -
  assume a: "\<not> \<bar>a\<bar> < 0.2"
  have "find (\<lambda>i. \<bar>replicate n a ! i\<bar> < 0.2) [0 ..< (n + 1) div 2] = None"
    by (rule find_upt_none) (use a in auto)
  then show ?thesis by (simp add: trimLeft_def)
qed

lemma trimRight_replicate: "\<not> \<bar>a\<bar> < 0.2 \<Longrightarrow> trimRight (replicate n a) = int n - 1"
proof -
  assume a: "\<not> \<bar>a\<bar> < 0.2"
  have "find (\<lambda>i. \<bar>replicate n a ! (n - i)\<bar> < 0.2) [1 ..< (n + 1) div 2] = None"
    by (rule find_upt_none) (use a in auto)
  then show ?thesis by (simp add: trimRight_def)
qed

lemma autoCorrelate_constant:
  assumes "\<not> \<bar>a\<bar> < 0.2" "2 \<le> n"
  shows "autoCorrelate (replicate n a) sr = js_div sr (int n - 2)"
proof -
  have a0: "a \<noteq> 0" using assms(1) by auto
  have "sumSq (replicate n a) / real n = a * a"
    using assms(2) by (simp add: sumSq_def sum_list_replicate)
  moreover have "\<not> a * a < 0.0001"
  proof -
    have "0.2 \<le> \<bar>a\<bar>" using assms(1) by simp
    then have "0.2 * 0.2 \<le> \<bar>a\<bar> * \<bar>a\<bar>" by (intro mult_mono) simp_all
    then show ?thesis by simp
  qed
  ultimately have loud: "\<not> rms (replicate n a) < 0.01"
    by (simp only: rms_signal_threshold length_replicate) simp
  have b2: "js_slice (replicate n a) 0 (int n - 1) = replicate (n - 1) a"
  proof -
    have "nat (int n - 1) = n - 1" by linarith
    then show ?thesis using assms(2) by (simp add: js_slice_def Let_def min_def)
  qed
  let ?c = "acf (replicate (n - 1) a)"
  have len: "length ?c = n - 1" by simp
  have pos: "0 < a * a" using a0 by (auto simp: zero_less_mult_iff)
  have dec: "\<forall>j. 0 \<le> j \<and> j + 1 < length ?c \<longrightarrow> ?c ! j > ?c ! (j + 1)"
  proof (intro allI impI)
    fix j assume "0 \<le> j \<and> j + 1 < length ?c"
    then have j: "j + 1 < n - 1" by simp
    have c1: "?c ! j = real (n - 1 - j) * (a * a)"
      using j by (intro acf_replicate_nth) simp
    have c2: "?c ! (j + 1) = real (n - 1 - (j + 1)) * (a * a)"
      using j by (intro acf_replicate_nth)
    have "real (n - 1 - (j + 1)) < real (n - 1 - j)"
      using j by simp
    then show "?c ! j > ?c ! (j + 1)"
      unfolding c1 c2 using pos by (rule mult_strict_right_mono)
  qed
  have d: "findDip ?c 0 = n - 2"
    using findDip_decreasing [OF _ dec] assms(2) by simp
  have last: "?c ! (n - 2) = a * a"
    using assms(2) by (simp add: acf_replicate_nth)
  have ne: "?c \<noteq> []" using assms(2) by (metis len length_0_conv diff_is_0_eq not_less_eq_eq One_nat_def Suc_1)
  have pk: "peakFrom ?c (n - 2) = (a * a, int n - 2)"
  proof -
    have "n - 2 = length ?c - 1" using assms(2) by simp
    then have "peakFrom ?c (n - 2) = peakFrom ?c (length ?c - 1)" by simp
    also have "\<dots> = (if ?c ! (length ?c - 1) > - 1 then (?c ! (length ?c - 1), int (length ?c) - 1) else (- 1, - 1))"
      by (rule peakFrom_last [OF ne])
    also have "\<dots> = (a * a, int n - 2)"
    proof -
      have "- 1 < a * a" by (smt (verit) zero_le_square)
      moreover have "length ?c - 1 = n - 2" by simp
      moreover have "int (length ?c) - 1 = int n - 2" using assms(2) by simp
      ultimately show ?thesis using last by (simp del: length_acf)
    qed
    finally show ?thesis .
  qed
  have T0: "int n - 2 \<noteq> - 1" using assms(2) by simp
  have tl: "trimLeft (replicate n a) = 0" by (rule trimLeft_replicate [OF assms(1)])
  have tr: "trimRight (replicate n a) = int n - 1" by (rule trimRight_replicate [OF assms(1)])
  show ?thesis
    unfolding autoCorrelate_def Let_def tl tr b2 d pk
    using loud T0 by simp
qed

lemma gap_chunk0: "chunkAt gapSegment 0 = replicate 2046 1 @ [- 1, 1/10]"
  by (simp add: chunkAt_def js_slice_def gapSegment_def Let_def)

lemma gap_chunk1: "chunkAt gapSegment 1024 = replicate 1022 1 @ [- 1, 1/10, - 10, 0] @ replicate 1022 1"
proof -
  have "drop 1024 (replicate 2046 (1::real)) = replicate 1022 1" by simp
  then show ?thesis
    by (simp add: chunkAt_def js_slice_def gapSegment_def Let_def)
qed

lemma gap_rms0: "t = 0.02 \<or> t = 0.01 \<Longrightarrow> \<not> rms (replicate 2046 1 @ [- 1, 1/10]) < t"
  by (auto simp only: rms_silence_threshold rms_signal_threshold) (simp_all add: sumSq_def sum_list_replicate)

lemma gap_rms1:
  "t = 0.02 \<or> t = 0.01 \<Longrightarrow> \<not> rms (replicate 1022 1 @ [- 1, 1/10, - 10, 0] @ replicate 1022 1) < t"
  by (auto simp only: rms_silence_threshold rms_signal_threshold) (simp_all add: sumSq_def sum_list_replicate)

lemma gap_auto0: "autoCorrelate (replicate 2046 1 @ [- 1, 1/10]) sr = Fin (- 1)"
proof -
  let ?f = "replicate 2046 (1::real) @ [- 1, 1/10]"
  let ?x = "replicate 2046 (1::real) @ [- 1]"
  have "find (\<lambda>i. \<bar>?f ! i\<bar> < 0.2) [0 ..< 1024] = None"
    by (rule find_upt_none) (auto simp: nth_append)
  then have tl: "trimLeft ?f = 0" by (simp add: trimLeft_def)
  have "find (\<lambda>i. \<bar>?f ! (2048 - i)\<bar> < 0.2) [1 ..< 1024] = Some 1"
    by (rule find_upt_first) (auto simp: nth_append)
  then have tr: "trimRight ?f = 2047" by (simp add: trimRight_def)
  have b2: "js_slice ?f 0 2047 = ?x" by (simp add: js_slice_def Let_def)
  have len: "length (acf ?x) = 2047" by simp
  have dec: "\<forall>j. 0 \<le> j \<and> j + 1 < length (acf ?x) \<longrightarrow> acf ?x ! j > acf ?x ! (j + 1)"
  proof (intro allI impI)
    fix j assume "0 \<le> j \<and> j + 1 < length (acf ?x)"
    then have j: "j + 1 \<le> 2046" by simp
    have c2: "acf ?x ! (j + 1) = real (2046 - (j + 1)) - 1"
      by (rule acf_ones_neg_nth) (use j in auto)
    show "acf ?x ! j > acf ?x ! (j + 1)"
    proof (cases "j = 0")
      case True
      then show ?thesis using c2 by (simp add: acf_ones_neg_0)
    next
      case False
      then have "acf ?x ! j = real (2046 - j) - 1"
        using j by (intro acf_ones_neg_nth) auto
      then show ?thesis using c2 j by simp
    qed
  qed
  have d: "findDip (acf ?x) 0 = 2046"
    using findDip_decreasing [OF _ dec] by simp
  have last: "acf ?x ! 2046 = - 1"
    using acf_ones_neg_nth [of 2046 2046] by simp
  have ne: "acf ?x \<noteq> []" using len by (metis length_0_conv zero_neq_numeral)
  have pk: "peakFrom (acf ?x) 2046 = (- 1, - 1)"
    using peakFrom_last [OF ne] last by (simp del: length_acf add: len)
  show ?thesis
    unfolding autoCorrelate_def Let_def tl tr b2 d pk
    using gap_rms0 [of "0.01"] by simp
qed

lemma gap_auto1: "autoCorrelate (replicate 1022 1 @ [- 1, 1/10, - 10, 0] @ replicate 1022 1) sr = Fin (- 1)"
proof -
  let ?f = "replicate 1022 (1::real) @ [- 1, 1/10, - 10, 0] @ replicate 1022 1"
  have "find (\<lambda>i. \<bar>?f ! i\<bar> < 0.2) [0 ..< 1024] = Some 1023"
    by (rule find_upt_first) (auto simp: nth_append nth_Cons split: nat.splits)
  then have tl: "trimLeft ?f = 1023" by (simp add: trimLeft_def)
  have "find (\<lambda>i. \<bar>?f ! (2048 - i)\<bar> < 0.2) [1 ..< 1024] = Some 1023"
    by (rule find_upt_first) (auto simp: nth_append)
  then have tr: "trimRight ?f = 1025" by (simp add: trimRight_def)
  have b2: "js_slice ?f 1023 1025 = [1/10, - 10]" by (simp add: js_slice_def Let_def)
  show ?thesis
    unfolding autoCorrelate_def Let_def tl tr b2 acf_unvoiced findDip_unvoiced peak_unvoiced
    using gap_rms1 [of "0.01"] by simp
qed

section \<open>The segmenter emits notes in order, with distinct identifiers\<close>

lemma sweepInv_initial: "sweepInv sr t 0 initialState"
  by (simp add: sweepInv_def initialState_def)

lemma div_sr_mono: "0 < sr \<Longrightarrow> a \<le> b \<Longrightarrow> t + a / sr \<le> t + b / (sr::real)"
  by (simp add: divide_right_mono)

lemma sweepInv_step:
  assumes sr: "0 < sr" and inv: "sweepInv sr t i st"
  shows "sweepInv sr t (i + 1024) (processWindow sr t i chunk st)"
proof -
  have mono_i: "t + real i / sr \<le> t + real (i + 1024) / sr"
    using sr by (intro div_sr_mono) simp_all
  from inv have srt: "sorted (map n_start (noteList st))"
    and bnd: "\<forall>n\<in>set (noteList st). n_start n \<le> t + real i / sr"
    and opn: "currentNoteStart st \<noteq> - 1 \<Longrightarrow> currentNoteStart st \<le> int i
           \<and> (\<forall>n\<in>set (noteList st). n_start n \<le> t + real_of_int (currentNoteStart st) / sr)"
    by (simp_all add: sweepInv_def)
  have bnd': "\<forall>n\<in>set (noteList st). n_start n \<le> t + real (i + 1024) / sr"
    using bnd mono_i by force
  text \<open>Closing the open note at window \<open>i\<close> keeps the list sorted and below \<open>i\<close>.\<close>
  have push: "sorted (map n_start (noteList st @ [closeNote sr t (int i) conf st]))
      \<and> (\<forall>n\<in>set (noteList st @ [closeNote sr t (int i) conf st]). n_start n \<le> t + real i / sr)"
    if "currentNoteStart st \<noteq> - 1" for conf
  proof -
    from opn [OF that] have c: "currentNoteStart st \<le> int i"
      and b: "\<forall>n\<in>set (noteList st). n_start n \<le> t + real_of_int (currentNoteStart st) / sr"
      by simp_all
    have "real_of_int (currentNoteStart st) \<le> real i" using c by linarith
    then have le: "t + real_of_int (currentNoteStart st) / sr \<le> t + real i / sr"
      using sr by (intro div_sr_mono)
    show ?thesis
      using srt b le bnd by (auto simp: sorted_append closeNote_def)
  qed
  show ?thesis
  proof (cases "rms chunk < 0.02")
    case True
    show ?thesis
    proof (cases "currentNoteStart st = - 1")
      case True
      with \<open>rms chunk < 0.02\<close> have "processWindow sr t i chunk st = st"
        by (simp add: processWindow_def)
      then show ?thesis using srt bnd' True by (simp add: sweepInv_def)
    next
      case False
      from push [OF False, of "0.8"] mono_i show ?thesis
        using \<open>rms chunk < 0.02\<close> False srt bnd'
        by (simp add: processWindow_def sweepInv_def)
    qed
  next
    case quiet: False
    show ?thesis
    proof (cases "js_positive (autoCorrelate chunk sr)")
      case False
      with quiet have "processWindow sr t i chunk st = st"
        by (simp add: processWindow_def)
      then show ?thesis using srt bnd' opn by (auto simp: sweepInv_def)
    next
      case pos: True
      show ?thesis
      proof (cases "currentNoteStart st = - 1")
        case True
        then show ?thesis using quiet pos srt bnd bnd'
          by (simp add: processWindow_def sweepInv_def Let_def)
      next
        case False
        from push [OF False, of "0.85"] opn [OF False] show ?thesis
          using quiet pos False srt bnd bnd' mono_i
          by (simp add: processWindow_def sweepInv_def Let_def)
      qed
    qed
  qed
qed

lemma sweep_sorted:
  assumes "0 < sr"
  shows "\<exists>j. sweepInv sr t j (sweep sr t seg 0 initialState)"
proof -
  have "\<exists>j. sweepInv sr t j (sweep sr t seg 0 initialState) \<and> \<not> int j < int (length seg) - 2048"
    by (rule sweep_invariant [where I = "sweepInv sr t"])
       (use assms sweepInv_initial sweepInv_step in auto)
  then show ?thesis by blast
qed

lemma closeFinal_sorted:
  assumes "sweepInv sr t j st"
  shows "sorted (map n_start (closeFinal sr t seg st))"
  using assms by (auto simp: closeFinal_def sweepInv_def sorted_append closeNote_def)

lemma start_times_of_events: "map start_time (map toEvent (zip raw [0 ..< length raw])) = map n_start raw"
proof -
  have "map start_time (map toEvent (zip raw [0 ..< length raw]))
      = map (n_start \<circ> fst) (zip raw [0 ..< length raw])"
    by (simp add: toEvent_def Let_def comp_def)
  also have "\<dots> = map n_start (map fst (zip raw [0 ..< length raw]))"
    by (simp only: map_map)
  also have "map fst (zip raw [0 ..< length raw]) = raw"
    by (rule map_fst_zip) simp
  finally show ?thesis .
qed

lemma idents_of_events_distinct: "distinct (map ident (map toEvent (zip raw [0 ..< length raw])))"
proof -
  let ?z = "zip raw [0 ..< length raw]"
  have "distinct (map snd ?z)" by simp
  then have dz: "distinct ?z" and inj: "inj_on snd (set ?z)"
    by (simp_all only: distinct_map)
  have "inj_on (ident \<circ> toEvent) (set ?z)"
  proof (rule inj_onI)
    fix p q assume p: "p \<in> set ?z" and q: "q \<in> set ?z" and e: "(ident \<circ> toEvent) p = (ident \<circ> toEvent) q"
    from e have "snd p = snd q" by (simp add: toEvent_def Let_def)
    with inj p q show "p = q" by (meson inj_onD)
  qed
  with dz have "distinct (map (ident \<circ> toEvent) ?z)" by (simp only: distinct_map)
  then show ?thesis by simp
qed

lemma analyze_sorted_distinct:
  assumes "0 < sampleRate b"
  shows "sorted (map start_time (analyzeAudioSegment b t d))
         \<and> distinct (map ident (analyzeAudioSegment b t d))"
proof -
  obtain j where "sweepInv (sampleRate b) t j (sweep (sampleRate b) t (segmentOf b t d) 0 initialState)"
    using sweep_sorted [OF assms] by blast
  then have "sorted (map n_start (closeFinal (sampleRate b) t (segmentOf b t d)
      (sweep (sampleRate b) t (segmentOf b t d) 0 initialState)))"
    by (rule closeFinal_sorted)
  then show ?thesis
    by (simp only: analyzeAudioSegment_def Let_def start_times_of_events idents_of_events_distinct)
qed

section \<open>The segmenter on a constant signal\<close>

lemma chunkAt_replicate: "i + 2048 \<le> n \<Longrightarrow> chunkAt (replicate n a) i = replicate 2048 a"
  by (simp add: chunkAt_def js_slice_def Let_def min_def)

lemma rms_replicate_loud:
  assumes "\<not> \<bar>a\<bar> < 0.2" "0 < n"
  shows "\<not> rms (replicate n a) < 0.02"
proof -
  have "sumSq (replicate n a) / real n = a * a"
    using assms(2) by (simp add: sumSq_def sum_list_replicate)
  moreover have "\<not> a * a < 0.0004"
  proof -
    have "0.2 \<le> \<bar>a\<bar>" using assms(1) by simp
    then have "0.2 * 0.2 \<le> \<bar>a\<bar> * \<bar>a\<bar>" by (intro mult_mono) simp_all
    then show ?thesis by simp
  qed
  ultimately show ?thesis
    by (simp only: rms_silence_threshold length_replicate) simp
qed

lemma processWindow_constant:
  assumes "0 < sr" "\<not> \<bar>a\<bar> < 0.2"
  shows "processWindow sr t i (replicate 2048 a) st =
    (let midiPitch = hzToMidi (Fin (sr / 2046))
     in if currentNoteStart st = - 1 then
          st \<lparr> currentNoteStart := int i, currentNotePitch := midiPitch, framesInNote := 1 \<rparr>
        else if pitchJump midiPitch (currentNotePitch st) then
          st \<lparr> noteList := (if framesInNote st > 4
                          then noteList st @ [closeNote sr t (int i) 0.85 st] else noteList st),
               currentNoteStart := int i, currentNotePitch := midiPitch, framesInNote := 1 \<rparr>
        else st \<lparr> framesInNote := framesInNote st + 1 \<rparr>)"
proof -
  have loud: "\<not> rms (replicate 2048 a) < 0.02"
    by (rule rms_replicate_loud [OF assms(2)]) simp
  have ac: "autoCorrelate (replicate 2048 a) sr = Fin (sr / 2046)"
    using autoCorrelate_constant [OF assms(2), of 2048 sr] by (simp add: js_div_def)
  have pos: "js_positive (Fin (sr / 2046))" using assms(1) by (simp add: js_positive_def)
  show ?thesis
    unfolding processWindow_def ac Let_def using loud pos by simp
qed

lemma pitchJump_same: "pitchJump (Pitch k) (Pitch k) = False"
  by (simp add: pitchJump_def)

lemma sweep_constant:
  assumes "0 < sr" "\<not> \<bar>a\<bar> < 0.2" "hzToMidi (Fin (sr / 2046)) = Pitch k"
  shows "sweep sr t (replicate 6145 a) 0 initialState =
           \<lparr> currentNoteStart = 0, currentNotePitch = Pitch k, framesInNote = 5, noteList = [] \<rparr>"
proof -
  have pw: "\<And>i st. processWindow sr t i (replicate 2048 a) st =
     (if currentNoteStart st = - 1 then
          st \<lparr> currentNoteStart := int i, currentNotePitch := Pitch k, framesInNote := 1 \<rparr>
        else if pitchJump (Pitch k) (currentNotePitch st) then
          st \<lparr> noteList := (if framesInNote st > 4
                          then noteList st @ [closeNote sr t (int i) 0.85 st] else noteList st),
               currentNoteStart := int i, currentNotePitch := Pitch k, framesInNote := 1 \<rparr>
        else st \<lparr> framesInNote := framesInNote st + 1 \<rparr>)"
    by (simp add: processWindow_constant [OF assms(1,2)] assms(3) Let_def)
  have ch: "\<And>i. i + 2048 \<le> 6145 \<Longrightarrow> chunkAt (replicate 6145 a) i = replicate 2048 a"
    by (rule chunkAt_replicate)
  show ?thesis
    by (simp add: sweep.simps ch pw initialState_def pitchJump_same)
qed

lemma powr_le_by_power:
  assumes "0 \<le> x" "0 < n" "2 powr (real_of_int p) \<le> x ^ n"
  shows "2 powr (real_of_int p / real n) \<le> x"
proof -
  have "(2 powr (real_of_int p / real n)) ^ n = 2 powr (real_of_int p / real n * real n)"
    by (simp add: powr_power)
  also have "\<dots> = 2 powr (real_of_int p)" using assms(2) by simp
  finally have "(2 powr (real_of_int p / real n)) ^ n \<le> x ^ n" using assms(3) by simp
  then show ?thesis
    using assms(1,2) by (metis power_le_imp_le_base Suc_pred)
qed

lemma powr_gt_by_power:
  assumes "0 \<le> x" "0 < n" "x ^ n < 2 powr (real_of_int p)"
  shows "x < 2 powr (real_of_int p / real n)"
proof -
  have "(2 powr (real_of_int p / real n)) ^ n = 2 powr (real_of_int p / real n * real n)"
    by (simp add: powr_power)
  also have "\<dots> = 2 powr (real_of_int p)" using assms(2) by simp
  finally have "x ^ n < (2 powr (real_of_int p / real n)) ^ n" using assms(3) by simp
  then show ?thesis
    by (rule power_less_imp_less_base) simp
qed

text \<open>The conversion yields \<open>k\<close> exactly on the band of ratios around \<open>2 ^ ((k - 69) / 12)\<close>.\<close>

lemma hzToMidi_band:
  assumes "0 < f"
    and lo: "2 powr (real_of_int (2 * k - 139) / 24) \<le> f / 440"
    and hi: "f / 440 < 2 powr (real_of_int (2 * k - 137) / 24)"
  shows "hzToMidi (Fin f) = Pitch k"
proof -
  have r: "0 < f / 440" using assms(1) by simp
  have one: "(1::real) < 2" by simp
  have "real_of_int (2 * k - 139) / 24 \<le> log 2 (f / 440)"
    by (rule le_log_iff [OF one r, THEN iffD2, OF lo])
  moreover have "log 2 (f / 440) < real_of_int (2 * k - 137) / 24"
    by (rule log_less_iff [OF one r, THEN iffD2, OF hi])
  ultimately have "real_of_int k \<le> 69 + 12 * log 2 (f / 440) + 1 / 2"
    and "69 + 12 * log 2 (f / 440) + 1 / 2 < real_of_int k + 1"
    by simp_all
  then have "\<lfloor>69 + 12 * log 2 (f / 440) + 1 / 2\<rfloor> = k"
    by (intro floor_unique) simp_all
  then show ?thesis using assms(1) by (simp add: hzToMidi_def round_def)
qed

lemma hzToMidi_dc_8000: "hzToMidi (Fin (8000 / 2046)) = Pitch (- 13)"
proof (rule hzToMidi_band)
  show "(0::real) < 8000 / 2046" by simp
  have "2 powr (real_of_int (- 165) / real 24) \<le> (100 / 11253 :: real)"
    by (rule powr_le_by_power) (simp_all add: powr_minus powr_realpow [symmetric] divide_simps)
  then show "2 powr (real_of_int (2 * - 13 - 139) / 24) \<le> (8000 / 2046 / 440 :: real)" by simp
  have "(100 / 11253 :: real) < 2 powr (real_of_int (- 163) / real 24)"
    by (rule powr_gt_by_power) (simp_all add: powr_minus divide_simps)
  then show "(8000 / 2046 / 440 :: real) < 2 powr (real_of_int (2 * - 13 - 137) / 24)" by simp
qed

lemma analyze_dc_8000:
  "analyzeAudioSegment \<lparr> sampleRate = 8000, channelData = replicate 6145 (1/2) \<rparr> 0 1 =
     [\<lparr> ident = RealId 0 0, start_time = 0, duration = 6145 / 8000, midi_pitch = Pitch (- 13),
        velocity = 0.7, confidence = 0.85 \<rparr>]"
proof -
  have seg: "segmentOf \<lparr> sampleRate = 8000, channelData = replicate 6145 (1/2) \<rparr> 0 1 = replicate 6145 (1/2)"
    by (simp add: segmentOf_def js_slice_def Let_def)
  have sw: "sweep 8000 0 (replicate 6145 (1/2)) 0 initialState =
           \<lparr> currentNoteStart = 0, currentNotePitch = Pitch (- 13), framesInNote = 5, noteList = [] \<rparr>"
    by (rule sweep_constant [OF _ _ hzToMidi_dc_8000]) simp_all
  show ?thesis
    by (simp add: analyzeAudioSegment_def Let_def seg sw closeFinal_def closeNote_def toEvent_def)
qed

lemma analyze_negative_duration:
  "analyzeAudioSegment \<lparr> sampleRate = 8000, channelData = replicate 14145 (1/2) \<rparr> 0 (- 1) =
     [\<lparr> ident = RealId 0 0, start_time = 0, duration = 6145 / 8000, midi_pitch = Pitch (- 13),
        velocity = 0.7, confidence = 0.85 \<rparr>]"
proof -
  have seg: "segmentOf \<lparr> sampleRate = 8000, channelData = replicate 14145 (1/2) \<rparr> 0 (- 1) = replicate 6145 (1/2)"
    by (simp add: segmentOf_def js_slice_def Let_def)
  have sw: "sweep 8000 0 (replicate 6145 (1/2)) 0 initialState =
           \<lparr> currentNoteStart = 0, currentNotePitch = Pitch (- 13), framesInNote = 5, noteList = [] \<rparr>"
    by (rule sweep_constant [OF _ _ hzToMidi_dc_8000]) simp_all
  show ?thesis
    by (simp add: analyzeAudioSegment_def Let_def seg sw closeFinal_def closeNote_def toEvent_def)
qed

lemma autoCorrelate_zeroGap: "autoCorrelate zeroGapFrame 44100 = PosInf"
proof -
  let ?f = "replicate 1023 (1/2 :: real) @ [0, 0, 0] @ replicate 1022 (1/2)"
  have loud: "\<not> rms ?f < 0.01"
    by (simp only: rms_signal_threshold) (simp add: sumSq_def sum_list_replicate)
  have "find (\<lambda>i. \<bar>?f ! i\<bar> < 0.2) [0 ..< 1024] = Some 1023"
    by (rule find_upt_first) (auto simp: nth_append)
  then have tl: "trimLeft ?f = 1023" by (simp add: trimLeft_def)
  have "find (\<lambda>i. \<bar>?f ! (2048 - i)\<bar> < 0.2) [1 ..< 1024] = Some 1023"
    by (rule find_upt_first) (auto simp: nth_append)
  then have tr: "trimRight ?f = 1025" by (simp add: trimRight_def)
  have b2: "js_slice ?f 1023 1025 = [0, 0]" by (simp add: js_slice_def Let_def)
  have c: "acf [0, 0] = [0, 0]" by (simp add: acf_def upt_rec)
  have d: "findDip [0, 0] 0 = 0" by (simp add: findDip.simps js_gt_def c_at_def)
  have pk: "peakFrom [0, 0] 0 = (0, 0)" by (simp add: peakFrom_def upt_rec)
  show ?thesis
    unfolding zeroGapFrame_def autoCorrelate_def Let_def tl tr b2 c d pk
    using loud by (simp add: js_div_def)
qed

section \<open>Claims about the segmenter on silent and unvoiced input\<close>

text \<open>
  Claim C7. When every analysis window the sweep visits has a root mean square below the
  silence threshold 0.02, the segmenter returns the empty list. This covers the all-zero
  buffer of any length, the empty buffer and every buffer of at most 2048 samples (the
  sweep visits no window of such a buffer). The model is total: no path raises.
\<close>

theorem silence_yields_no_notes:
  "allWindowsSilent (segmentOf audioBuffer startT dur)
     \<or> set (channelData audioBuffer) \<subseteq> {0}
     \<or> length (channelData audioBuffer) \<le> 2048
   \<Longrightarrow> analyzeAudioSegment audioBuffer startT dur = []"
proof (elim disjE)
  assume "allWindowsSilent (segmentOf audioBuffer startT dur)"
  then show ?thesis by (rule analyze_silent)
next
  assume "set (channelData audioBuffer) \<subseteq> {0}"
  then have "allWindowsSilent (segmentOf audioBuffer startT dur)" by (rule zero_buffer_silent)
  then show ?thesis by (rule analyze_silent)
next
  assume "length (channelData audioBuffer) \<le> 2048"
  then have "allWindowsSilent (segmentOf audioBuffer startT dur)" by (rule short_buffer_silent)
  then show ?thesis by (rule analyze_silent)
qed

theorem silence_yields_no_notes_witness:
  "windowStarts (segmentOf \<lparr> sampleRate = 44100, channelData = replicate 5000 0 \<rparr> 0 30) = [0, 1024, 2048]
   \<and> allWindowsSilent (segmentOf \<lparr> sampleRate = 44100, channelData = replicate 5000 0 \<rparr> 0 30)
   \<and> analyzeAudioSegment \<lparr> sampleRate = 44100, channelData = replicate 5000 0 \<rparr> 0 30 = []
   \<and> analyzeAudioSegment \<lparr> sampleRate = 44100, channelData = [] \<rparr> 0 30 = []"
proof -
  have h: "allWindowsSilent (segmentOf \<lparr> sampleRate = 44100, channelData = replicate 5000 0 \<rparr> 0 30)"
    by (rule zero_buffer_silent) simp
  have w: "windowStarts (segmentOf \<lparr> sampleRate = 44100, channelData = replicate 5000 0 \<rparr> 0 30) = [0, 1024, 2048]"
    by (simp add: windowStarts_def segmentOf_def js_slice_def Let_def upt_rec)
  have e: "analyzeAudioSegment \<lparr> sampleRate = 44100, channelData = [] \<rparr> 0 30 = []"
    by (rule silence_yields_no_notes) simp
  show ?thesis
    using h w e silence_yields_no_notes [of "\<lparr> sampleRate = 44100, channelData = replicate 5000 0 \<rparr>" 0 30]
    by simp
qed

text \<open>
  Claim C10. A window whose root mean square is at or above 0.02 and for which the pitch
  estimator returns the unvoiced sentinel \<open>-1\<close> leaves the whole sweep state as it was:
  start index, held pitch, frame count and the notes emitted so far. This holds for any
  number \<open>n\<close> of consecutive such windows, so the sweep continues after them from the
  state it had before them.
\<close>

theorem unvoiced_windows_leave_state:
  assumes "\<forall>k<n. int (i + 1024 * k) < int (length segmentData) - 2048
             \<and> \<not> rms (chunkAt segmentData (i + 1024 * k)) < 0.02
             \<and> autoCorrelate (chunkAt segmentData (i + 1024 * k)) sr = Fin (- 1)"
  shows "(\<forall>k<n. processWindow sr startT (i + 1024 * k) (chunkAt segmentData (i + 1024 * k)) st = st)
         \<and> sweep sr startT segmentData i st = sweep sr startT segmentData (i + 1024 * n) st"
proof -
  have each: "\<forall>k<n. processWindow sr startT (i + 1024 * k) (chunkAt segmentData (i + 1024 * k)) st = st"
    using assms processWindow_unvoiced by blast
  then have "\<forall>k<n. int (i + 1024 * k) < int (length segmentData) - 2048
      \<and> processWindow sr startT (i + 1024 * k) (chunkAt segmentData (i + 1024 * k)) st = st"
    using assms by blast
  then have "sweep sr startT segmentData i st = sweep sr startT segmentData (i + 1024 * n) st"
    by (rule sweep_skip)
  with each show ?thesis by blast
qed

theorem unvoiced_windows_leave_state_witness:
  "\<not> rms (chunkAt gapSegment 0) < 0.02 \<and> autoCorrelate (chunkAt gapSegment 0) 44100 = Fin (- 1)
   \<and> \<not> rms (chunkAt gapSegment 1024) < 0.02 \<and> autoCorrelate (chunkAt gapSegment 1024) 44100 = Fin (- 1)
   \<and> processWindow 44100 0 0 (chunkAt gapSegment 0) heldNote = heldNote
   \<and> processWindow 44100 0 1024 (chunkAt gapSegment 1024) heldNote = heldNote
   \<and> sweep 44100 0 gapSegment 0 heldNote = heldNote"
proof -
  have len: "length gapSegment = 3073" by (simp add: gapSegment_def)
  have w0: "\<not> rms (chunkAt gapSegment 0) < 0.02 \<and> autoCorrelate (chunkAt gapSegment 0) 44100 = Fin (- 1)"
    unfolding gap_chunk0 using gap_rms0 [of "0.02"] gap_auto0 by simp
  have w1: "\<not> rms (chunkAt gapSegment 1024) < 0.02 \<and> autoCorrelate (chunkAt gapSegment 1024) 44100 = Fin (- 1)"
    unfolding gap_chunk1 using gap_rms1 [of "0.02"] gap_auto1 by simp
  have hyp: "\<forall>k<2. int (0 + 1024 * k) < int (length gapSegment) - 2048
             \<and> \<not> rms (chunkAt gapSegment (0 + 1024 * k)) < 0.02
             \<and> autoCorrelate (chunkAt gapSegment (0 + 1024 * k)) 44100 = Fin (- 1)"
  proof (intro allI impI)
    fix k :: nat assume "k < 2"
    then have "k = 0 \<or> k = 1" by linarith
    then show "int (0 + 1024 * k) < int (length gapSegment) - 2048
             \<and> \<not> rms (chunkAt gapSegment (0 + 1024 * k)) < 0.02
             \<and> autoCorrelate (chunkAt gapSegment (0 + 1024 * k)) 44100 = Fin (- 1)"
      using w0 w1 len by auto
  qed
  have concl: "(\<forall>k<2. processWindow 44100 0 (0 + 1024 * k) (chunkAt gapSegment (0 + 1024 * k)) heldNote = heldNote)
         \<and> sweep 44100 0 gapSegment 0 heldNote = sweep 44100 0 gapSegment (0 + 1024 * 2) heldNote"
    by (rule unvoiced_windows_leave_state [OF hyp])
  have stop: "sweep 44100 0 gapSegment (0 + 1024 * 2) heldNote = heldNote"
    by (subst sweep.simps) (simp add: len)
  have p0: "processWindow 44100 0 0 (chunkAt gapSegment 0) heldNote = heldNote"
    using concl [THEN conjunct1, rule_format, of 0] by simp
  have p1: "processWindow 44100 0 1024 (chunkAt gapSegment 1024) heldNote = heldNote"
    using concl [THEN conjunct1, rule_format, of 1] by simp
  show ?thesis using w0 w1 p0 p1 concl stop by simp
qed


section \<open>Invariant rules for the loops of the generator\<close>

lemma melodyLoop_invariant:
  assumes init: "I cb deg ns"
    and skip: "\<And>cb deg ns dur. I cb deg ns \<Longrightarrow> cb < 4 \<Longrightarrow> dur \<in> {1/2, 1, 2} \<Longrightarrow> I (cb + dur) deg ns"
    and play: "\<And>cb deg ns dur s n s' deg'.
        I cb deg ns \<Longrightarrow> cb < 4 \<Longrightarrow> dur \<in> {1/2, 1, 2}
        \<Longrightarrow> startTime ctx \<le> real_of_int bar * BAR_DURATION ctx + cb * BEAT_DURATION ctx
        \<Longrightarrow> real_of_int bar * BAR_DURATION ctx + cb * BEAT_DURATION ctx < endTime ctx
        \<Longrightarrow> melodyNote ctx bar cb dur s deg = (n, s', deg')
        \<Longrightarrow> I (cb + dur) deg' (ns @ [n])"
  shows "case melodyLoop ctx bar cb seed deg ns of (ns', s', deg') \<Rightarrow> \<exists>cb'. I cb' deg' ns'"
  using init
proof (induction "nat \<lceil>8 - 2 * cb\<rceil>" arbitrary: cb seed deg ns rule: less_induct)
  case less
  show ?case
  proof (cases "cb < 4")
    case False
    then show ?thesis using less.prems by (subst melodyLoop.simps) auto
  next
    case True
    define rhythmRoll where "rhythmRoll = getSeededRandom seed"
    define dur :: real where "dur = (if rhythmRoll > 0.7 then 2 else if rhythmRoll < 0.3 then 0.5 else 1)"
    define noteTime where "noteTime = real_of_int bar * BAR_DURATION ctx + cb * BEAT_DURATION ctx"
    define sp where "sp = (if cb = 0 then (True, seed + 1)
                else (let (r, s) = rng (seed + 1) in (r > 0.3, s)))"
    have durs: "dur \<in> {1/2, 1, 2}" by (simp add: dur_def)
    then have dpos: "1/2 \<le> dur" by auto
    have dec: "nat \<lceil>8 - 2 * (cb + dur)\<rceil> < nat \<lceil>8 - 2 * cb\<rceil>"
    proof -
      have "\<lceil>8 - 2 * (cb + dur)\<rceil> \<le> \<lceil>8 - 2 * cb - 1\<rceil>"
        by (rule ceiling_mono) (use dpos in simp)
      also have "\<dots> = \<lceil>8 - 2 * cb\<rceil> - 1" by (simp only: ceiling_diff_one)
      finally have a: "\<lceil>8 - 2 * (cb + dur)\<rceil> < \<lceil>8 - 2 * cb\<rceil>" by simp
      have "0 < \<lceil>8 - 2 * cb\<rceil>" using True by (simp add: less_ceiling_iff)
      with a show ?thesis by linarith
    qed
    have unfold: "melodyLoop ctx bar cb seed deg ns =
      (if fst sp \<and> noteTime \<ge> startTime ctx \<and> noteTime < endTime ctx then
         (let (n, seed3, deg') = melodyNote ctx bar cb dur (snd sp) deg
          in melodyLoop ctx bar (cb + dur) seed3 deg' (ns @ [n]))
       else melodyLoop ctx bar (cb + dur) (snd sp) deg ns)"
      using True
      by (subst melodyLoop.simps)
         (simp add: rng_def Let_def dur_def rhythmRoll_def noteTime_def sp_def split: prod.splits)
    show ?thesis
    proof (cases "fst sp \<and> noteTime \<ge> startTime ctx \<and> noteTime < endTime ctx")
      case False
      have "I (cb + dur) deg ns" using skip less.prems True durs by blast
      moreover have "melodyLoop ctx bar cb seed deg ns = melodyLoop ctx bar (cb + dur) (snd sp) deg ns"
        by (simp only: unfold False if_False simp_thms)
      ultimately show ?thesis
        using less.hyps [OF dec, of deg ns "snd sp"] by simp
    next
      case pl: True
      obtain n seed3 deg' where mn: "melodyNote ctx bar cb dur (snd sp) deg = (n, seed3, deg')"
        by (metis prod_cases3)
      have "I (cb + dur) deg' (ns @ [n])"
        using play [OF less.prems True durs _ _ mn] pl by (simp add: noteTime_def)
      moreover have "melodyLoop ctx bar cb seed deg ns = melodyLoop ctx bar (cb + dur) seed3 deg' (ns @ [n])"
        by (simp only: unfold pl if_True mn Let_def prod.case simp_thms)
      ultimately show ?thesis
        using less.hyps [OF dec, of deg' "ns @ [n]" seed3] by simp
    qed
  qed
qed

lemma barLoop_invariant:
  assumes "J bar st"
    and "\<And>b st. J b st \<Longrightarrow> bar \<le> b \<Longrightarrow> b < endBar \<Longrightarrow> J (b + 1) (barBody ctx b st)"
  shows "\<exists>b. J b (barLoop ctx bar endBar st) \<and> endBar \<le> b"
proof -
  have "bar \<le> b \<Longrightarrow> J b st \<Longrightarrow> \<exists>b'. J b' (barLoop ctx b endBar st) \<and> endBar \<le> b'" for b st
  proof (induction "nat (endBar - b)" arbitrary: b st rule: less_induct)
    case less
    show ?case
    proof (cases "b < endBar")
      case True
      have "J (b + 1) (barBody ctx b st)" using assms(2) less.prems True by blast
      moreover have "nat (endBar - (b + 1)) < nat (endBar - b)" using True by linarith
      moreover have "bar \<le> b + 1" using less.prems(1) by simp
      ultimately have "\<exists>b'. J b' (barLoop ctx (b + 1) endBar (barBody ctx b st)) \<and> endBar \<le> b'"
        using less.hyps by blast
      then show ?thesis using True by (subst barLoop.simps) simp
    next
      case False
      then have "barLoop ctx b endBar st = st" by (subst barLoop.simps) simp
      then show ?thesis using False less.prems by auto
    qed
  qed
  from this [of bar st] assms(1) show ?thesis by simp
qed

section \<open>What each layer emits\<close>

lemma bassLayer_cases:
  "fst (bassLayer ctx bar seed) = [] \<and> \<not> max (startTime ctx) (real_of_int bar * BAR_DURATION ctx) < endTime ctx
   \<or> max (startTime ctx) (real_of_int bar * BAR_DURATION ctx) < endTime ctx
      \<and> (fst (bassLayer ctx bar seed) = [bassDownbeat ctx bar]
          \<or> inWindow ctx (real_of_int bar * BAR_DURATION ctx + BEAT_DURATION ctx * 2)
             \<and> (fst (bassLayer ctx bar seed) = [bassDownbeat ctx bar, bassSecond ctx bar 0]
                 \<or> fst (bassLayer ctx bar seed) = [bassDownbeat ctx bar, bassSecond ctx bar 4]))"
  by (simp add: bassLayer_def Let_def rng_def bassDownbeat_def bassSecond_def inWindow_def)

lemma bassLayer_noteOK: "n \<in> set (fst (bassLayer ctx bar seed)) \<Longrightarrow> noteOK ctx n \<and> barOf (ident n) = bar"
  using bassLayer_cases [of ctx bar seed]
  by (auto simp: noteOK_def barOf_def bassDownbeat_def bassSecond_def)

lemma bassLayer_idents:
  "distinct (map ident (fst (bassLayer ctx bar seed)))
   \<and> set (map ident (fst (bassLayer ctx bar seed))) \<subseteq> {BassId bar 1, BassId bar 3}"
  using bassLayer_cases [of ctx bar seed]
  by (auto simp: bassDownbeat_def bassSecond_def)

lemma bassLayer_downbeat:
  "max (startTime ctx) (real_of_int bar * BAR_DURATION ctx) < endTime ctx
   \<Longrightarrow> bassDownbeat ctx bar \<in> set (fst (bassLayer ctx bar seed))"
  using bassLayer_cases [of ctx bar seed] by auto

lemma harmonyNote_cases:
  "harmonyNote ctx bar intensity (interval, idx) = []
   \<or> (\<exists>n. harmonyNote ctx bar intensity (interval, idx) = [n] \<and> ident n = HarmId bar idx
        \<and> inWindow ctx (start_time n)
        \<and> start_time n = real_of_int bar * BAR_DURATION ctx + BEAT_DURATION ctx + real idx * 0.03
        \<and> midi_pitch n = getMidiPitch ctx (degree_plus (chordAt ctx bar) interval) (- 1)
        \<and> velocity n = 0.4 + intensity * 0.2 \<and> confidence n = 0.85 \<and> duration n = BEAT_DURATION ctx * 2)"
  by (simp add: harmonyNote_def Let_def inWindow_def)

lemma harmonyLayer_noteOK:
  assumes "n \<in> set (fst (harmonyLayer ctx bar seed))"
  shows "noteOK ctx n \<and> barOf (ident n) = bar \<and> (\<exists>idx. ident n = HarmId bar idx)"
proof -
  from assms obtain intensity where
    "n \<in> set (harmonyNote ctx bar intensity (0, 0)) \<or> n \<in> set (harmonyNote ctx bar intensity (2, 1))
     \<or> n \<in> set (harmonyNote ctx bar intensity (4, 2))"
    by (auto simp: harmonyLayer_def Let_def rng_def split: if_splits)
  then show ?thesis
    using harmonyNote_cases [of ctx bar intensity 0 0] harmonyNote_cases [of ctx bar intensity 2 1]
      harmonyNote_cases [of ctx bar intensity 4 2]
    by (auto simp: noteOK_def barOf_def)
qed

lemma harmonyLayer_distinct: "distinct (map ident (fst (harmonyLayer ctx bar seed)))"
proof -
  have "distinct (map ident (harmonyNote ctx bar i (0, 0) @ harmonyNote ctx bar i (2, 1) @ harmonyNote ctx bar i (4, 2)))" for i
    using harmonyNote_cases [of ctx bar i 0 0] harmonyNote_cases [of ctx bar i 2 1]
      harmonyNote_cases [of ctx bar i 4 2]
    by auto
  then show ?thesis by (simp add: harmonyLayer_def Let_def rng_def)
qed

lemma melodyNote_ident: "\<exists>r. ident (fst (melodyNote ctx bar cb dur s deg)) = MelId bar cb r"
  by (simp add: melodyNote_def Let_def rng_def)

lemma melodyNote_time:
  "start_time (fst (melodyNote ctx bar cb dur s deg))
     = real_of_int bar * BAR_DURATION ctx + cb * BEAT_DURATION ctx"
  by (simp add: melodyNote_def Let_def rng_def)

lemma melodyNote_pitch:
  "midi_pitch (fst (melodyNote ctx bar cb dur s deg))
     = getMidiPitch ctx (snd (snd (melodyNote ctx bar cb dur s deg))) 0"
  by (simp add: melodyNote_def Let_def rng_def)

lemma melodyNote_rest:
  "duration (fst (melodyNote ctx bar cb dur s deg)) = dur * BEAT_DURATION ctx * 0.9
   \<and> velocity (fst (melodyNote ctx bar cb dur s deg)) = (if even_beat cb then 0.9 else 0.7)
   \<and> confidence (fst (melodyNote ctx bar cb dur s deg)) = 0.95"
  by (simp add: melodyNote_def Let_def rng_def)

section \<open>Every emitted note is well formed and identifiers are distinct\<close>

lemma notesInv_widen: "notesInv ctx lo hi ns \<Longrightarrow> hi \<le> hi' \<Longrightarrow> notesInv ctx lo hi' ns"
  by (auto simp: notesInv_def list_all_iff)

lemma melodyInv_skip:
  assumes "melodyInv ctx lo b cb ns" "cb \<le> cb'"
  shows "melodyInv ctx lo b cb' ns"
  using assms by (auto simp: melodyInv_def list_all_iff melodyBefore_def split: note_id.splits)

lemma melodyInv_play:
  assumes inv: "melodyInv ctx lo b cb ns" and lo: "lo \<le> b" and dur: "0 < dur"
    and win: "inWindow ctx (real_of_int b * BAR_DURATION ctx + cb * BEAT_DURATION ctx)"
    and mn: "melodyNote ctx b cb dur' s deg = (n, s', deg')"
  shows "melodyInv ctx lo b (cb + dur) (ns @ [n])"
proof -
  from mn have n: "n = fst (melodyNote ctx b cb dur' s deg)" by simp
  obtain r where idn: "ident n = MelId b cb r" using melodyNote_ident [of ctx b cb dur' s deg] n by auto
  have tm: "start_time n = real_of_int b * BAR_DURATION ctx + cb * BEAT_DURATION ctx"
    using melodyNote_time [of ctx b cb dur' s deg] n by simp
  have ok: "noteOK ctx n" using idn tm win by (simp add: noteOK_def)
  have fresh: "ident n \<notin> set (map ident ns)"
  proof
    assume "ident n \<in> set (map ident ns)"
    then obtain m where "m \<in> set ns" "ident m = MelId b cb r" using idn by auto
    then have "melodyBefore b cb (MelId b cb r)"
      using inv by (auto simp: melodyInv_def list_all_iff)
    then show False by (simp add: melodyBefore_def)
  qed
  show ?thesis
    using inv ok fresh idn lo dur
    by (auto simp: melodyInv_def notesInv_def list_all_iff barOf_def melodyBefore_def split: note_id.splits)
qed

lemma melodyLoop_melodyInv:
  assumes "melodyInv ctx lo b cb ns" "lo \<le> b"
  shows "notesInv ctx lo (b + 1) (fst (melodyLoop ctx b cb seed deg ns))"
proof -
  have "case melodyLoop ctx b cb seed deg ns of (ns', s', deg') \<Rightarrow> \<exists>cb'. melodyInv ctx lo b cb' ns'"
  proof (rule melodyLoop_invariant [where I = "\<lambda>cb deg ns. melodyInv ctx lo b cb ns"])
    show "melodyInv ctx lo b cb ns" by fact
  next
    fix cb deg ns and dur :: real
    assume a: "melodyInv ctx lo b cb ns" and d: "dur \<in> {1/2, 1, 2}"
    from d have "cb \<le> cb + dur" by auto
    with a show "melodyInv ctx lo b (cb + dur) ns" by (rule melodyInv_skip)
  next
    fix cb deg ns and dur :: real and s n s' deg'
    assume a: "melodyInv ctx lo b cb ns" and d: "dur \<in> {1/2, 1, 2}"
      and w1: "startTime ctx \<le> real_of_int b * BAR_DURATION ctx + cb * BEAT_DURATION ctx"
      and w2: "real_of_int b * BAR_DURATION ctx + cb * BEAT_DURATION ctx < endTime ctx"
      and mn: "melodyNote ctx b cb dur s deg = (n, s', deg')"
    from d have dp: "0 < dur" by auto
    from w1 w2 have w: "inWindow ctx (real_of_int b * BAR_DURATION ctx + cb * BEAT_DURATION ctx)"
      by (simp add: inWindow_def)
    show "melodyInv ctx lo b (cb + dur) (ns @ [n])"
      by (rule melodyInv_play [OF a assms(2) dp w mn])
  qed
  then obtain cb' where "melodyInv ctx lo b cb' (fst (melodyLoop ctx b cb seed deg ns))"
    by (cases "melodyLoop ctx b cb seed deg ns") auto
  then show ?thesis by (simp add: melodyInv_def)
qed

lemma barBody_eq:
  assumes "bassLayer ctx b seed = (bass, s1)" "harmonyLayer ctx b s1 = (harm, s2)"
    "melodyLoop ctx b 0 s2 deg (ns @ bass @ harm) = (ns', s3, d')"
  shows "barBody ctx b (seed, deg, ns) = (s3, d', ns')"
  unfolding barBody_def Let_def prod.case assms
  by (rule refl)

lemma barBody_notes:
  "snd (snd (barBody ctx b (seed, deg, ns))) =
      fst (melodyLoop ctx b 0 (snd (harmonyLayer ctx b (snd (bassLayer ctx b seed)))) deg
                 (ns @ fst (bassLayer ctx b seed) @ fst (harmonyLayer ctx b (snd (bassLayer ctx b seed)))))"
proof -
  obtain bass s1 where bl: "bassLayer ctx b seed = (bass, s1)" by (cases "bassLayer ctx b seed")
  obtain harm s2 where hl: "harmonyLayer ctx b s1 = (harm, s2)" by (cases "harmonyLayer ctx b s1")
  obtain ns' s3 d' where ml: "melodyLoop ctx b 0 s2 deg (ns @ bass @ harm) = (ns', s3, d')"
    by (metis prod_cases3)
  have e: "barBody ctx b (seed, deg, ns) = (s3, d', ns')" by (rule barBody_eq [OF bl hl ml])
  have "fst (melodyLoop ctx b 0 (snd (harmonyLayer ctx b (snd (bassLayer ctx b seed)))) deg
                 (ns @ fst (bassLayer ctx b seed) @ fst (harmonyLayer ctx b (snd (bassLayer ctx b seed))))) = ns'"
    by (simp only: bl hl ml fst_conv snd_conv)
  then show ?thesis by (simp only: e snd_conv)
qed

lemma bassLayer_ident_form:
  "n \<in> set (fst (bassLayer ctx bar seed)) \<Longrightarrow> ident n = BassId bar 1 \<or> ident n = BassId bar 3"
  using bassLayer_cases [of ctx bar seed]
  by (auto simp: bassDownbeat_def bassSecond_def)

lemma barBody_notesInv:
  assumes "notesInv ctx lo b ns" "lo \<le> b"
  shows "notesInv ctx lo (b + 1) (snd (snd (barBody ctx b (seed, deg, ns))))"
proof -
  let ?bass = "fst (bassLayer ctx b seed)"
  let ?harm = "fst (harmonyLayer ctx b (snd (bassLayer ctx b seed)))"
  have bass: "\<forall>n\<in>set ?bass. noteOK ctx n \<and> barOf (ident n) = b \<and> (\<exists>k. ident n = BassId b k)"
  proof
    fix n assume n: "n \<in> set ?bass"
    from bassLayer_noteOK [OF n] bassLayer_ident_form [OF n]
    show "noteOK ctx n \<and> barOf (ident n) = b \<and> (\<exists>k. ident n = BassId b k)" by blast
  qed
  have harm: "\<forall>n\<in>set ?harm. noteOK ctx n \<and> barOf (ident n) = b \<and> (\<exists>k. ident n = HarmId b k)"
    using harmonyLayer_noteOK by blast
  have old: "\<forall>n\<in>set ns. noteOK ctx n \<and> lo \<le> barOf (ident n) \<and> barOf (ident n) < b"
    using assms(1) by (simp add: notesInv_def list_all_iff)
  have d0: "distinct (map ident ns)" using assms(1) by (simp add: notesInv_def)
  have d1: "distinct (map ident ?bass)" using bassLayer_idents [of ctx b seed] by simp
  have d2: "distinct (map ident ?harm)" by (rule harmonyLayer_distinct)
  have x01: "set (map ident ns) \<inter> set (map ident ?bass) = {}"
  proof (rule ccontr)
    assume "set (map ident ns) \<inter> set (map ident ?bass) \<noteq> {}"
    then obtain n m where "n \<in> set ns" "m \<in> set ?bass" "ident n = ident m" by auto
    then show False using old bass by (metis less_irrefl)
  qed
  have x02: "set (map ident ns) \<inter> set (map ident ?harm) = {}"
  proof (rule ccontr)
    assume "set (map ident ns) \<inter> set (map ident ?harm) \<noteq> {}"
    then obtain n m where "n \<in> set ns" "m \<in> set ?harm" "ident n = ident m" by auto
    then show False using old harm by (metis less_irrefl)
  qed
  have x12: "set (map ident ?bass) \<inter> set (map ident ?harm) = {}"
  proof (rule ccontr)
    assume "set (map ident ?bass) \<inter> set (map ident ?harm) \<noteq> {}"
    then obtain n m where "n \<in> set ?bass" "m \<in> set ?harm" "ident n = ident m" by auto
    then show False using bass harm by (metis note_id.distinct(1))
  qed
  have d: "distinct (map ident (ns @ ?bass @ ?harm))"
    using d0 d1 d2 x01 x02 x12 by (simp add: Int_Un_distrib)
  have all: "\<forall>n\<in>set (ns @ ?bass @ ?harm). noteOK ctx n \<and> lo \<le> barOf (ident n) \<and> barOf (ident n) < b + 1"
  proof
    fix n assume "n \<in> set (ns @ ?bass @ ?harm)"
    then consider "n \<in> set ns" | "n \<in> set ?bass" | "n \<in> set ?harm" by auto
    then show "noteOK ctx n \<and> lo \<le> barOf (ident n) \<and> barOf (ident n) < b + 1"
    proof cases
      case 1
      then show ?thesis using old by force
    next
      case 2
      then show ?thesis using bass assms(2) by force
    next
      case 3
      then show ?thesis using harm assms(2) by force
    qed
  qed
  have nomel: "\<forall>n\<in>set (ns @ ?bass @ ?harm). melodyBefore b 0 (ident n)"
  proof
    fix n assume "n \<in> set (ns @ ?bass @ ?harm)"
    then consider "n \<in> set ns" | "n \<in> set ?bass" | "n \<in> set ?harm" by auto
    then show "melodyBefore b 0 (ident n)"
    proof cases
      case 1
      then have "barOf (ident n) < b" using old by blast
      then show ?thesis by (auto simp: melodyBefore_def barOf_def split: note_id.splits)
    next
      case 2
      then obtain k where "ident n = BassId b k" using bass by blast
      then show ?thesis by (simp add: melodyBefore_def)
    next
      case 3
      then obtain k where "ident n = HarmId b k" using harm by blast
      then show ?thesis by (simp add: melodyBefore_def)
    qed
  qed
  have "melodyInv ctx lo b 0 (ns @ ?bass @ ?harm)"
    unfolding melodyInv_def notesInv_def list_all_iff
    using d all nomel by blast
  then have "notesInv ctx lo (b + 1) (fst (melodyLoop ctx b 0 (snd (harmonyLayer ctx b (snd (bassLayer ctx b seed)))) deg (ns @ ?bass @ ?harm)))"
    using assms(2) by (rule melodyLoop_melodyInv)
  then show ?thesis by (simp only: barBody_notes)
qed

lemma barLoop_notesInv:
  assumes "lo \<le> bar"
  shows "\<exists>hi. notesInv ctx lo hi (snd (snd (barLoop ctx bar endBar (seed, deg, []))))"
proof -
  have "\<exists>b. (lo \<le> b \<and> notesInv ctx lo b (snd (snd (barLoop ctx bar endBar (seed, deg, []))))) \<and> endBar \<le> b"
  proof (rule barLoop_invariant [where J = "\<lambda>b st. lo \<le> b \<and> notesInv ctx lo b (snd (snd st))"])
    show "lo \<le> bar \<and> notesInv ctx lo bar (snd (snd (seed, deg, [])))"
      using assms by (simp add: notesInv_def)
  next
    fix b and st :: "int \<times> int option \<times> NoteEvent list"
    assume a: "lo \<le> b \<and> notesInv ctx lo b (snd (snd st))"
    obtain s d ns where st: "st = (s, d, ns)" by (metis prod_cases3)
    show "lo \<le> b + 1 \<and> notesInv ctx lo (b + 1) (snd (snd (barBody ctx b st)))"
      using a barBody_notesInv [of ctx lo b ns s d] by (simp add: st)
  qed
  then show ?thesis by blast
qed

section \<open>The output of the generator\<close>

lemma makeContext_snd: "snd (makeContext seed0 s e) = seed0 + 5"
  by (simp add: makeContext_def Let_def rng_def)

lemma contextOf_window [simp]:
  "startTime (contextOf seed0 s e) = s" "endTime (contextOf seed0 s e) = e"
  by (simp_all add: contextOf_def makeContext_def Let_def rng_def)

lemma contextOf_beat: "BEAT_DURATION (contextOf seed0 s e) = 60 / real_of_int (80 + \<lfloor>getSeededRandom seed0 * 50\<rfloor>)"
  by (simp add: contextOf_def makeContext_def Let_def rng_def)

lemma floor_draw_range:
  assumes "0 < k"
  shows "0 \<le> \<lfloor>getSeededRandom s * real_of_int k\<rfloor> \<and> \<lfloor>getSeededRandom s * real_of_int k\<rfloor> < k"
proof -
  have "0 \<le> getSeededRandom s * real_of_int k" using assms by simp
  moreover have "getSeededRandom s * real_of_int k < real_of_int k"
    using assms getSeededRandom_lt1 [of s] by simp
  ultimately show ?thesis by (simp add: floor_less_iff)
qed

lemma contextOf_beat_pos: "0 < BEAT_DURATION (contextOf seed0 s e)"
proof -
  have "0 \<le> \<lfloor>getSeededRandom seed0 * 50\<rfloor>" using floor_draw_range [of 50 seed0] by simp
  then have "0 < real_of_int (80 + \<lfloor>getSeededRandom seed0 * 50\<rfloor>)" by linarith
  then show ?thesis by (simp only: contextOf_beat zero_less_divide_iff) simp
qed

lemma contextOf_bar_pos: "0 < BAR_DURATION (contextOf seed0 s e)"
  using contextOf_beat_pos [of seed0 s e] by (simp add: BAR_DURATION_def)

lemma contextOf_bar: "BAR_DURATION (contextOf seed0 s e) = BAR_DURATION (contextOf seed0 s' e')"
  by (simp add: BAR_DURATION_def contextOf_beat)

lemma composeFrom_eq:
  "composeFrom seed0 s e =
     sort_key start_time (snd (snd (barLoop (contextOf seed0 s e)
        \<lfloor>s / BAR_DURATION (contextOf seed0 s e)\<rfloor> \<lceil>e / BAR_DURATION (contextOf seed0 s e)\<rceil>
        (seed0 + 5, Some 0, []))))"
proof -
  obtain ctx sd where mc: "makeContext seed0 s e = (ctx, sd)" by (cases "makeContext seed0 s e")
  have sd: "sd = seed0 + 5" using makeContext_snd [of seed0 s e] mc by simp
  have ctx: "contextOf seed0 s e = ctx" by (simp add: contextOf_def mc)
  obtain s' d ns where bl: "barLoop ctx \<lfloor>s / BAR_DURATION ctx\<rfloor> \<lceil>e / BAR_DURATION ctx\<rceil> (sd, Some 0, []) = (s', d, ns)"
    by (metis prod_cases3)
  have "composeFrom seed0 s e = sort_key start_time ns"
    unfolding composeFrom_def mc Let_def prod.case bl by (rule refl)
  then show ?thesis using bl by (simp add: ctx sd)
qed

lemma composeFrom_notesInv:
  "\<exists>hi. notesInv (contextOf seed0 s e) \<lfloor>s / BAR_DURATION (contextOf seed0 s e)\<rfloor> hi (composeFrom seed0 s e)"
proof -
  let ?ctx = "contextOf seed0 s e"
  let ?ns = "snd (snd (barLoop ?ctx \<lfloor>s / BAR_DURATION ?ctx\<rfloor> \<lceil>e / BAR_DURATION ?ctx\<rceil> (seed0 + 5, Some 0, [])))"
  obtain hi where inv: "notesInv ?ctx \<lfloor>s / BAR_DURATION ?ctx\<rfloor> hi ?ns"
    using barLoop_notesInv [of "\<lfloor>s / BAR_DURATION ?ctx\<rfloor>" "\<lfloor>s / BAR_DURATION ?ctx\<rfloor>" ?ctx "\<lceil>e / BAR_DURATION ?ctx\<rceil>" "seed0 + 5" "Some 0"]
    by auto
  have "distinct (map ident (sort_key start_time ?ns)) = distinct (map ident ?ns)"
    by (metis distinct_map distinct_sort set_sort)
  then have "notesInv ?ctx \<lfloor>s / BAR_DURATION ?ctx\<rfloor> hi (sort_key start_time ?ns)"
    using inv by (simp add: notesInv_def list_all_iff)
  then show ?thesis by (auto simp only: composeFrom_eq)
qed

lemma compose_sorted_distinct:
  "sorted (map start_time (generateDeterministicNotes videoId s e))
   \<and> distinct (map ident (generateDeterministicNotes videoId s e))"
proof -
  obtain hi where "notesInv (contextOf (seedOf videoId) s e)
      \<lfloor>s / BAR_DURATION (contextOf (seedOf videoId) s e)\<rfloor> hi (composeFrom (seedOf videoId) s e)"
    using composeFrom_notesInv by blast
  then have "distinct (map ident (composeFrom (seedOf videoId) s e))" by (simp add: notesInv_def)
  moreover have "sorted (map start_time (composeFrom (seedOf videoId) s e))"
    by (simp only: composeFrom_eq sorted_sort_key)
  ultimately show ?thesis by (simp add: generateDeterministicNotes_def)
qed

section \<open>The bass downbeat of every bar in range is emitted\<close>

lemma melodyLoop_superset: "set ns \<subseteq> set (fst (melodyLoop ctx b cb seed deg ns))"
proof -
  have "case melodyLoop ctx b cb seed deg ns of (ns', s', deg') \<Rightarrow> \<exists>cb'::real. set ns \<subseteq> set ns'"
    by (rule melodyLoop_invariant [where I = "\<lambda>cb deg ns'. set ns \<subseteq> set ns'"]) auto
  then show ?thesis by (cases "melodyLoop ctx b cb seed deg ns") auto
qed

lemma barBody_superset:
  "set ns \<union> set (fst (bassLayer ctx b seed)) \<subseteq> set (snd (snd (barBody ctx b (seed, deg, ns))))"
  unfolding barBody_notes
  using melodyLoop_superset [of "ns @ fst (bassLayer ctx b seed) @ fst (harmonyLayer ctx b (snd (bassLayer ctx b seed)))"]
  by auto

lemma barLoop_downbeats:
  assumes win: "startTime ctx < endTime ctx" and bar: "0 < BAR_DURATION ctx"
    and eb: "endBar \<le> \<lceil>endTime ctx / BAR_DURATION ctx\<rceil>"
    and b: "bar \<le> b" "b < endBar"
  shows "bassDownbeat ctx b \<in> set (snd (snd (barLoop ctx bar endBar (seed, deg, []))))"
proof -
  let ?J = "\<lambda>k (st :: int \<times> int option \<times> NoteEvent list).
               \<forall>b'. bar \<le> b' \<and> b' < k \<longrightarrow> bassDownbeat ctx b' \<in> set (snd (snd st))"
  have "\<exists>k. ?J k (barLoop ctx bar endBar (seed, deg, [])) \<and> endBar \<le> k"
  proof (rule barLoop_invariant [where J = ?J])
    show "?J bar (seed, deg, [])" by simp
  next
    fix k and st :: "int \<times> int option \<times> NoteEvent list"
    assume inv: "?J k st" and k: "bar \<le> k" "k < endBar"
    obtain s d ns where st: "st = (s, d, ns)" by (metis prod_cases3)
    have "k < \<lceil>endTime ctx / BAR_DURATION ctx\<rceil>" using k(2) eb by linarith
    then have "real_of_int k < endTime ctx / BAR_DURATION ctx"
      by (simp only: less_ceiling_iff)
    then have "real_of_int k * BAR_DURATION ctx < endTime ctx"
      using bar by (simp add: pos_less_divide_eq)
    then have "max (startTime ctx) (real_of_int k * BAR_DURATION ctx) < endTime ctx"
      using win by simp
    then have new: "bassDownbeat ctx k \<in> set (fst (bassLayer ctx k s))"
      by (rule bassLayer_downbeat)
    have sup: "set ns \<union> set (fst (bassLayer ctx k s)) \<subseteq> set (snd (snd (barBody ctx k st)))"
      unfolding st by (rule barBody_superset)
    show "?J (k + 1) (barBody ctx k st)"
    proof (intro allI impI)
      fix b' assume b': "bar \<le> b' \<and> b' < k + 1"
      show "bassDownbeat ctx b' \<in> set (snd (snd (barBody ctx k st)))"
      proof (cases "b' = k")
        case True
        then show ?thesis using new sup by auto
      next
        case False
        then have "bar \<le> b' \<and> b' < k" using b' by simp
        then have "bassDownbeat ctx b' \<in> set ns" using inv st by simp
        then show ?thesis using sup by auto
      qed
    qed
  qed
  then show ?thesis using b by force
qed

lemma compose_contains_downbeat:
  assumes "s < e" "\<lfloor>s / BAR_DURATION (contextOf seed0 s e)\<rfloor> \<le> b"
    "b < \<lceil>e / BAR_DURATION (contextOf seed0 s e)\<rceil>"
  shows "bassDownbeat (contextOf seed0 s e) b \<in> set (composeFrom seed0 s e)"
proof -
  have "bassDownbeat (contextOf seed0 s e) b \<in> set (snd (snd (barLoop (contextOf seed0 s e)
        \<lfloor>s / BAR_DURATION (contextOf seed0 s e)\<rfloor> \<lceil>e / BAR_DURATION (contextOf seed0 s e)\<rceil>
        (seed0 + 5, Some 0, []))))"
    by (rule barLoop_downbeats) (use assms contextOf_bar_pos in simp_all)
  then show ?thesis by (simp only: composeFrom_eq set_sort)
qed

text \<open>A note of the output that carries a bass identifier is the bass record of its bar.\<close>

lemma compose_note_props:
  assumes "n \<in> set (composeFrom seed0 s e)"
  shows "noteOK (contextOf seed0 s e) n
         \<and> \<lfloor>s / BAR_DURATION (contextOf seed0 s e)\<rfloor> \<le> barOf (ident n)"
  using composeFrom_notesInv [of seed0 s e] assms
  by (auto simp: notesInv_def list_all_iff)

lemma unique_by_ident:
  assumes "distinct (map ident ns)" "x \<in> set ns"
  shows "filter (\<lambda>n. ident n = ident x) ns = [x]"
  using assms
proof (induction ns)
  case Nil
  then show ?case by simp
next
  case (Cons a ns)
  show ?case
  proof (cases "a = x")
    case True
    then have "ident x \<notin> ident ` set ns" using Cons.prems(1) by simp
    then have "\<forall>n\<in>set ns. ident n \<noteq> ident x" by (metis imageI)
    then have "filter (\<lambda>n. ident n = ident x) ns = []" by (simp add: filter_empty_conv)
    then show ?thesis using True by simp
  next
    case False
    then have "x \<in> set ns" using Cons.prems(2) by simp
    moreover have "ident a \<notin> ident ` set ns" using Cons.prems(1) by simp
    then have "ident a \<noteq> ident x" using \<open>x \<in> set ns\<close> by (metis imageI)
    ultimately show ?thesis using Cons by simp
  qed
qed

section \<open>The generator on the seed \<^verbatim>\<open>"aa"\<close>\<close>

text \<open>The draws of the seed stream from cursor 194 on.\<close>

lemma draw_194: "getSeededRandom 194 = 1724025725 / 2147483648"
  by (simp add: getSeededRandom_def Let_def)

lemma draw_195: "getSeededRandom 195 = 3649424521 / 4294967296"
  by (simp add: getSeededRandom_def Let_def)

lemma draw_196: "getSeededRandom 196 = 2932034773 / 4294967296"
  by (simp add: getSeededRandom_def Let_def)

lemma draw_197: "getSeededRandom 197 = 977677919 / 4294967296"
  by (simp add: getSeededRandom_def Let_def)

lemma draw_198: "getSeededRandom 198 = 4067615909 / 4294967296"
  by (simp add: getSeededRandom_def Let_def)

lemma draw_199: "getSeededRandom 199 = 3955790513 / 4294967296"
  by (simp add: getSeededRandom_def Let_def)

lemma draw_200: "getSeededRandom 200 = 82409427 / 268435456"
  by (simp add: getSeededRandom_def Let_def)

lemma draw_201: "getSeededRandom 201 = 58890859 / 134217728"
  by (simp add: getSeededRandom_def Let_def)

lemma draw_202: "getSeededRandom 202 = 276471023 / 2147483648"
  by (simp add: getSeededRandom_def Let_def)

lemma draw_203: "getSeededRandom 203 = 3325453257 / 4294967296"
  by (simp add: getSeededRandom_def Let_def)

lemma draw_204: "getSeededRandom 204 = 158680759 / 268435456"
  by (simp add: getSeededRandom_def Let_def)

lemma draw_205: "getSeededRandom 205 = 1192736179 / 4294967296"
  by (simp add: getSeededRandom_def Let_def)

lemma draw_206: "getSeededRandom 206 = 2855805619 / 4294967296"
  by (simp add: getSeededRandom_def Let_def)

lemma draw_207: "getSeededRandom 207 = 125727677 / 1073741824"
  by (simp add: getSeededRandom_def Let_def)

lemma draw_208: "getSeededRandom 208 = 1225171263 / 4294967296"
  by (simp add: getSeededRandom_def Let_def)

lemma draw_209: "getSeededRandom 209 = 258967927 / 2147483648"
  by (simp add: getSeededRandom_def Let_def)

lemma draw_210: "getSeededRandom 210 = 4115673389 / 4294967296"
  by (simp add: getSeededRandom_def Let_def)

lemma draw_211: "getSeededRandom 211 = 865447147 / 4294967296"
  by (simp add: getSeededRandom_def Let_def)

lemma draw_212: "getSeededRandom 212 = 996402949 / 2147483648"
  by (simp add: getSeededRandom_def Let_def)

lemma draw_213: "getSeededRandom 213 = 559457159 / 2147483648"
  by (simp add: getSeededRandom_def Let_def)

lemma draw_214: "getSeededRandom 214 = 680041201 / 2147483648"
  by (simp add: getSeededRandom_def Let_def)

lemma draw_215: "getSeededRandom 215 = 600595401 / 2147483648"
  by (simp add: getSeededRandom_def Let_def)

lemma draw_216: "getSeededRandom 216 = 105545751 / 536870912"
  by (simp add: getSeededRandom_def Let_def)

lemma draw_217: "getSeededRandom 217 = 86121051 / 536870912"
  by (simp add: getSeededRandom_def Let_def)

lemma draw_218: "getSeededRandom 218 = 23906389 / 2147483648"
  by (simp add: getSeededRandom_def Let_def)

lemma draw_219: "getSeededRandom 219 = 844045781 / 2147483648"
  by (simp add: getSeededRandom_def Let_def)

lemma draw_220: "getSeededRandom 220 = 83802933 / 4294967296"
  by (simp add: getSeededRandom_def Let_def)

lemma draw_221: "getSeededRandom 221 = 1264764935 / 2147483648"
  by (simp add: getSeededRandom_def Let_def)

lemma draw_222: "getSeededRandom 222 = 935605843 / 4294967296"
  by (simp add: getSeededRandom_def Let_def)

lemma draw_223: "getSeededRandom 223 = 165957387 / 268435456"
  by (simp add: getSeededRandom_def Let_def)

lemma draw_224: "getSeededRandom 224 = 121566393 / 1073741824"
  by (simp add: getSeededRandom_def Let_def)

lemma draw_225: "getSeededRandom 225 = 34158815 / 4294967296"
  by (simp add: getSeededRandom_def Let_def)

lemma draw_226: "getSeededRandom 226 = 656269407 / 1073741824"
  by (simp add: getSeededRandom_def Let_def)

lemma draw_227: "getSeededRandom 227 = 2787462473 / 4294967296"
  by (simp add: getSeededRandom_def Let_def)

lemma draw_228: "getSeededRandom 228 = 2132347759 / 2147483648"
  by (simp add: getSeededRandom_def Let_def)

lemma draw_229: "getSeededRandom 229 = 2342234001 / 4294967296"
  by (simp add: getSeededRandom_def Let_def)

lemma draw_230: "getSeededRandom 230 = 163263981 / 536870912"
  by (simp add: getSeededRandom_def Let_def)

lemma draw_231: "getSeededRandom 231 = 1032518723 / 1073741824"
  by (simp add: getSeededRandom_def Let_def)

lemma draw_232: "getSeededRandom 232 = 4271906523 / 4294967296"
  by (simp add: getSeededRandom_def Let_def)

lemma draw_233: "getSeededRandom 233 = 19521757 / 67108864"
  by (simp add: getSeededRandom_def Let_def)

lemmas draws_aa = draw_194 draw_195 draw_196 draw_197 draw_198 draw_199 draw_200 draw_201 draw_202 draw_203 draw_204 draw_205 draw_206 draw_207 draw_208 draw_209 draw_210 draw_211 draw_212 draw_213 draw_214 draw_215 draw_216 draw_217 draw_218 draw_219 draw_220 draw_221 draw_222 draw_223 draw_224 draw_225 draw_226 draw_227 draw_228 draw_229 draw_230 draw_231 draw_232 draw_233

lemma seedOf_aa: "seedOf ''aa'' = 194"
  by (simp add: seedOf_def)

lemma makeContext_aa: "makeContext 194 s e = (ctxAA s e, 199)"
  by (simp add: makeContext_def rng_def draws_aa Let_def PROGRESSIONS_def ctxAA_def)

lemmas layer_defs = bassLayer_def harmonyLayer_def harmonyNote_def melodyNote_def melodyTarget_def rangeClamp_def
  rng_def Let_def
  BAR_DURATION_def chordAt_def js_rem_def getMidiPitch_def degree_plus_def degree_less_def
  pitch_gt_def pitch_lt_def even_beat_def ctxAA_def draws_aa

lemma A_bass0: "bassLayer (ctxAA 0 4) 0 199 =
     ([\<lparr> ident = BassId 0 1, start_time = 0, duration = 3 / 5, midi_pitch = Pitch 44, velocity = 17 / 20, confidence = 49 / 50 \<rparr>,
       \<lparr> ident = BassId 0 3, start_time = 1, duration = 1 / 2, midi_pitch = Pitch 44, velocity = 3 / 4, confidence = 9 / 10 \<rparr>], 201)"
  by (simp add: layer_defs)

lemma A_harm0: "harmonyLayer (ctxAA 0 4) 0 201 =
     ([\<lparr> ident = HarmId 0 0, start_time = 1 / 2, duration = 1, midi_pitch = Pitch 56, velocity = 65465263 / 134217728, confidence = 17 / 20 \<rparr>,
       \<lparr> ident = HarmId 0 1, start_time = 53 / 100, duration = 1, midi_pitch = Pitch 60, velocity = 65465263 / 134217728, confidence = 17 / 20 \<rparr>,
       \<lparr> ident = HarmId 0 2, start_time = 14 / 25, duration = 1, midi_pitch = Pitch 63, velocity = 65465263 / 134217728, confidence = 17 / 20 \<rparr>], 202)"
  by (simp add: layer_defs)

lemma A_mel0: "melodyLoop (ctxAA 0 4) 0 0 202 (Some 0) ns =
     (ns @ [\<lparr> ident = MelId 0 (0) 27, start_time = 0, duration = 9 / 40, midi_pitch = Pitch 63, velocity = 9 / 10, confidence = 19 / 20 \<rparr>], 212, Some 2)"
  by (simp add: melodyLoop.simps layer_defs)

lemma A_body0: "barBody (ctxAA 0 4) 0 (199, Some 0, []) =
     (212, Some 2, [\<lparr> ident = BassId 0 1, start_time = 0, duration = 3 / 5, midi_pitch = Pitch 44, velocity = 17 / 20, confidence = 49 / 50 \<rparr>,
       \<lparr> ident = BassId 0 3, start_time = 1, duration = 1 / 2, midi_pitch = Pitch 44, velocity = 3 / 4, confidence = 9 / 10 \<rparr>,
       \<lparr> ident = HarmId 0 0, start_time = 1 / 2, duration = 1, midi_pitch = Pitch 56, velocity = 65465263 / 134217728, confidence = 17 / 20 \<rparr>,
       \<lparr> ident = HarmId 0 1, start_time = 53 / 100, duration = 1, midi_pitch = Pitch 60, velocity = 65465263 / 134217728, confidence = 17 / 20 \<rparr>,
       \<lparr> ident = HarmId 0 2, start_time = 14 / 25, duration = 1, midi_pitch = Pitch 63, velocity = 65465263 / 134217728, confidence = 17 / 20 \<rparr>,
       \<lparr> ident = MelId 0 (0) 27, start_time = 0, duration = 9 / 40, midi_pitch = Pitch 63, velocity = 9 / 10, confidence = 19 / 20 \<rparr>])"
  by (rule barBody_eq [OF A_bass0 A_harm0]) (simp add: A_mel0)

lemma A_bass1: "bassLayer (ctxAA 0 4) 1 212 =
     ([\<lparr> ident = BassId 1 1, start_time = 2, duration = 3 / 5, midi_pitch = Pitch 41, velocity = 17 / 20, confidence = 49 / 50 \<rparr>,
       \<lparr> ident = BassId 1 3, start_time = 3, duration = 1 / 2, midi_pitch = Pitch 41, velocity = 3 / 4, confidence = 9 / 10 \<rparr>], 214)"
  by (simp add: layer_defs)

lemma A_harm1: "harmonyLayer (ctxAA 0 4) 1 214 =
     ([\<lparr> ident = HarmId 1 0, start_time = 5 / 2, duration = 1, midi_pitch = Pitch 53, velocity = 4975008497 / 10737418240, confidence = 17 / 20 \<rparr>,
       \<lparr> ident = HarmId 1 1, start_time = 253 / 100, duration = 1, midi_pitch = Pitch 56, velocity = 4975008497 / 10737418240, confidence = 17 / 20 \<rparr>,
       \<lparr> ident = HarmId 1 2, start_time = 64 / 25, duration = 1, midi_pitch = Pitch 60, velocity = 4975008497 / 10737418240, confidence = 17 / 20 \<rparr>], 215)"
  by (simp add: layer_defs)

lemma A_mel1: "melodyLoop (ctxAA 0 4) 1 0 215 (Some 2) ns =
     (ns @ [\<lparr> ident = MelId 1 (0) 1, start_time = 2, duration = 9 / 40, midi_pitch = Pitch 63, velocity = 9 / 10, confidence = 19 / 20 \<rparr>,
       \<lparr> ident = MelId 1 (7 / 2) 54, start_time = 15 / 4, duration = 9 / 40, midi_pitch = Pitch 65, velocity = 7 / 10, confidence = 19 / 20 \<rparr>], 230, Some 3)"
  by (simp add: melodyLoop.simps layer_defs)

lemma A_body1: "barBody (ctxAA 0 4) 1 (212, Some 2, [\<lparr> ident = BassId 0 1, start_time = 0, duration = 3 / 5, midi_pitch = Pitch 44, velocity = 17 / 20, confidence = 49 / 50 \<rparr>,
       \<lparr> ident = BassId 0 3, start_time = 1, duration = 1 / 2, midi_pitch = Pitch 44, velocity = 3 / 4, confidence = 9 / 10 \<rparr>,
       \<lparr> ident = HarmId 0 0, start_time = 1 / 2, duration = 1, midi_pitch = Pitch 56, velocity = 65465263 / 134217728, confidence = 17 / 20 \<rparr>,
       \<lparr> ident = HarmId 0 1, start_time = 53 / 100, duration = 1, midi_pitch = Pitch 60, velocity = 65465263 / 134217728, confidence = 17 / 20 \<rparr>,
       \<lparr> ident = HarmId 0 2, start_time = 14 / 25, duration = 1, midi_pitch = Pitch 63, velocity = 65465263 / 134217728, confidence = 17 / 20 \<rparr>,
       \<lparr> ident = MelId 0 (0) 27, start_time = 0, duration = 9 / 40, midi_pitch = Pitch 63, velocity = 9 / 10, confidence = 19 / 20 \<rparr>]) =
     (230, Some 3, [\<lparr> ident = BassId 0 1, start_time = 0, duration = 3 / 5, midi_pitch = Pitch 44, velocity = 17 / 20, confidence = 49 / 50 \<rparr>,
       \<lparr> ident = BassId 0 3, start_time = 1, duration = 1 / 2, midi_pitch = Pitch 44, velocity = 3 / 4, confidence = 9 / 10 \<rparr>,
       \<lparr> ident = HarmId 0 0, start_time = 1 / 2, duration = 1, midi_pitch = Pitch 56, velocity = 65465263 / 134217728, confidence = 17 / 20 \<rparr>,
       \<lparr> ident = HarmId 0 1, start_time = 53 / 100, duration = 1, midi_pitch = Pitch 60, velocity = 65465263 / 134217728, confidence = 17 / 20 \<rparr>,
       \<lparr> ident = HarmId 0 2, start_time = 14 / 25, duration = 1, midi_pitch = Pitch 63, velocity = 65465263 / 134217728, confidence = 17 / 20 \<rparr>,
       \<lparr> ident = MelId 0 (0) 27, start_time = 0, duration = 9 / 40, midi_pitch = Pitch 63, velocity = 9 / 10, confidence = 19 / 20 \<rparr>,
       \<lparr> ident = BassId 1 1, start_time = 2, duration = 3 / 5, midi_pitch = Pitch 41, velocity = 17 / 20, confidence = 49 / 50 \<rparr>,
       \<lparr> ident = BassId 1 3, start_time = 3, duration = 1 / 2, midi_pitch = Pitch 41, velocity = 3 / 4, confidence = 9 / 10 \<rparr>,
       \<lparr> ident = HarmId 1 0, start_time = 5 / 2, duration = 1, midi_pitch = Pitch 53, velocity = 4975008497 / 10737418240, confidence = 17 / 20 \<rparr>,
       \<lparr> ident = HarmId 1 1, start_time = 253 / 100, duration = 1, midi_pitch = Pitch 56, velocity = 4975008497 / 10737418240, confidence = 17 / 20 \<rparr>,
       \<lparr> ident = HarmId 1 2, start_time = 64 / 25, duration = 1, midi_pitch = Pitch 60, velocity = 4975008497 / 10737418240, confidence = 17 / 20 \<rparr>,
       \<lparr> ident = MelId 1 (0) 1, start_time = 2, duration = 9 / 40, midi_pitch = Pitch 63, velocity = 9 / 10, confidence = 19 / 20 \<rparr>,
       \<lparr> ident = MelId 1 (7 / 2) 54, start_time = 15 / 4, duration = 9 / 40, midi_pitch = Pitch 65, velocity = 7 / 10, confidence = 19 / 20 \<rparr>])"
  by (rule barBody_eq [OF A_bass1 A_harm1]) (simp add: A_mel1)

lemma A_loop: "barLoop (ctxAA 0 4) 0 2 (199, Some 0, []) =
     (230, Some 3, [\<lparr> ident = BassId 0 1, start_time = 0, duration = 3 / 5, midi_pitch = Pitch 44, velocity = 17 / 20, confidence = 49 / 50 \<rparr>,
       \<lparr> ident = BassId 0 3, start_time = 1, duration = 1 / 2, midi_pitch = Pitch 44, velocity = 3 / 4, confidence = 9 / 10 \<rparr>,
       \<lparr> ident = HarmId 0 0, start_time = 1 / 2, duration = 1, midi_pitch = Pitch 56, velocity = 65465263 / 134217728, confidence = 17 / 20 \<rparr>,
       \<lparr> ident = HarmId 0 1, start_time = 53 / 100, duration = 1, midi_pitch = Pitch 60, velocity = 65465263 / 134217728, confidence = 17 / 20 \<rparr>,
       \<lparr> ident = HarmId 0 2, start_time = 14 / 25, duration = 1, midi_pitch = Pitch 63, velocity = 65465263 / 134217728, confidence = 17 / 20 \<rparr>,
       \<lparr> ident = MelId 0 (0) 27, start_time = 0, duration = 9 / 40, midi_pitch = Pitch 63, velocity = 9 / 10, confidence = 19 / 20 \<rparr>,
       \<lparr> ident = BassId 1 1, start_time = 2, duration = 3 / 5, midi_pitch = Pitch 41, velocity = 17 / 20, confidence = 49 / 50 \<rparr>,
       \<lparr> ident = BassId 1 3, start_time = 3, duration = 1 / 2, midi_pitch = Pitch 41, velocity = 3 / 4, confidence = 9 / 10 \<rparr>,
       \<lparr> ident = HarmId 1 0, start_time = 5 / 2, duration = 1, midi_pitch = Pitch 53, velocity = 4975008497 / 10737418240, confidence = 17 / 20 \<rparr>,
       \<lparr> ident = HarmId 1 1, start_time = 253 / 100, duration = 1, midi_pitch = Pitch 56, velocity = 4975008497 / 10737418240, confidence = 17 / 20 \<rparr>,
       \<lparr> ident = HarmId 1 2, start_time = 64 / 25, duration = 1, midi_pitch = Pitch 60, velocity = 4975008497 / 10737418240, confidence = 17 / 20 \<rparr>,
       \<lparr> ident = MelId 1 (0) 1, start_time = 2, duration = 9 / 40, midi_pitch = Pitch 63, velocity = 9 / 10, confidence = 19 / 20 \<rparr>,
       \<lparr> ident = MelId 1 (7 / 2) 54, start_time = 15 / 4, duration = 9 / 40, midi_pitch = Pitch 65, velocity = 7 / 10, confidence = 19 / 20 \<rparr>])"
  by (simp add: barLoop.simps A_body0 A_body1 del: One_nat_def)

lemma A_notes: "generateDeterministicNotes ''aa'' 0 4 =
     [\<lparr> ident = BassId 0 1, start_time = 0, duration = 3 / 5, midi_pitch = Pitch 44, velocity = 17 / 20, confidence = 49 / 50 \<rparr>,
      \<lparr> ident = MelId 0 (0) 27, start_time = 0, duration = 9 / 40, midi_pitch = Pitch 63, velocity = 9 / 10, confidence = 19 / 20 \<rparr>,
      \<lparr> ident = HarmId 0 0, start_time = 1 / 2, duration = 1, midi_pitch = Pitch 56, velocity = 65465263 / 134217728, confidence = 17 / 20 \<rparr>,
      \<lparr> ident = HarmId 0 1, start_time = 53 / 100, duration = 1, midi_pitch = Pitch 60, velocity = 65465263 / 134217728, confidence = 17 / 20 \<rparr>,
      \<lparr> ident = HarmId 0 2, start_time = 14 / 25, duration = 1, midi_pitch = Pitch 63, velocity = 65465263 / 134217728, confidence = 17 / 20 \<rparr>,
      \<lparr> ident = BassId 0 3, start_time = 1, duration = 1 / 2, midi_pitch = Pitch 44, velocity = 3 / 4, confidence = 9 / 10 \<rparr>,
      \<lparr> ident = BassId 1 1, start_time = 2, duration = 3 / 5, midi_pitch = Pitch 41, velocity = 17 / 20, confidence = 49 / 50 \<rparr>,
      \<lparr> ident = MelId 1 (0) 1, start_time = 2, duration = 9 / 40, midi_pitch = Pitch 63, velocity = 9 / 10, confidence = 19 / 20 \<rparr>,
      \<lparr> ident = HarmId 1 0, start_time = 5 / 2, duration = 1, midi_pitch = Pitch 53, velocity = 4975008497 / 10737418240, confidence = 17 / 20 \<rparr>,
      \<lparr> ident = HarmId 1 1, start_time = 253 / 100, duration = 1, midi_pitch = Pitch 56, velocity = 4975008497 / 10737418240, confidence = 17 / 20 \<rparr>,
      \<lparr> ident = HarmId 1 2, start_time = 64 / 25, duration = 1, midi_pitch = Pitch 60, velocity = 4975008497 / 10737418240, confidence = 17 / 20 \<rparr>,
      \<lparr> ident = BassId 1 3, start_time = 3, duration = 1 / 2, midi_pitch = Pitch 41, velocity = 3 / 4, confidence = 9 / 10 \<rparr>,
      \<lparr> ident = MelId 1 (7 / 2) 54, start_time = 15 / 4, duration = 9 / 40, midi_pitch = Pitch 65, velocity = 7 / 10, confidence = 19 / 20 \<rparr>]"
proof -
  have bars: "\<lfloor>(0::real) / BAR_DURATION (ctxAA 0 4)\<rfloor> = 0" "\<lceil>(4::real) / BAR_DURATION (ctxAA 0 4)\<rceil> = 2"
    by (simp_all add: BAR_DURATION_def ctxAA_def)
  show ?thesis
    unfolding generateDeterministicNotes_def seedOf_aa composeFrom_def makeContext_aa Let_def prod.case bars A_loop
    by simp
qed

lemma B_bass1: "bassLayer (ctxAA 2 4) 1 199 =
     ([\<lparr> ident = BassId 1 1, start_time = 2, duration = 3 / 5, midi_pitch = Pitch 41, velocity = 17 / 20, confidence = 49 / 50 \<rparr>,
       \<lparr> ident = BassId 1 3, start_time = 3, duration = 1 / 2, midi_pitch = Pitch 41, velocity = 3 / 4, confidence = 9 / 10 \<rparr>], 201)"
  by (simp add: layer_defs)

lemma B_harm1: "harmonyLayer (ctxAA 2 4) 1 201 =
     ([\<lparr> ident = HarmId 1 0, start_time = 5 / 2, duration = 1, midi_pitch = Pitch 53, velocity = 65465263 / 134217728, confidence = 17 / 20 \<rparr>,
       \<lparr> ident = HarmId 1 1, start_time = 253 / 100, duration = 1, midi_pitch = Pitch 56, velocity = 65465263 / 134217728, confidence = 17 / 20 \<rparr>,
       \<lparr> ident = HarmId 1 2, start_time = 64 / 25, duration = 1, midi_pitch = Pitch 60, velocity = 65465263 / 134217728, confidence = 17 / 20 \<rparr>], 202)"
  by (simp add: layer_defs)

lemma B_mel1: "melodyLoop (ctxAA 2 4) 1 0 202 (Some 0) ns =
     (ns @ [\<lparr> ident = MelId 1 (0) 27, start_time = 2, duration = 9 / 40, midi_pitch = Pitch 63, velocity = 9 / 10, confidence = 19 / 20 \<rparr>], 212, Some 2)"
  by (simp add: melodyLoop.simps layer_defs)

lemma B_body1: "barBody (ctxAA 2 4) 1 (199, Some 0, []) =
     (212, Some 2, [\<lparr> ident = BassId 1 1, start_time = 2, duration = 3 / 5, midi_pitch = Pitch 41, velocity = 17 / 20, confidence = 49 / 50 \<rparr>,
       \<lparr> ident = BassId 1 3, start_time = 3, duration = 1 / 2, midi_pitch = Pitch 41, velocity = 3 / 4, confidence = 9 / 10 \<rparr>,
       \<lparr> ident = HarmId 1 0, start_time = 5 / 2, duration = 1, midi_pitch = Pitch 53, velocity = 65465263 / 134217728, confidence = 17 / 20 \<rparr>,
       \<lparr> ident = HarmId 1 1, start_time = 253 / 100, duration = 1, midi_pitch = Pitch 56, velocity = 65465263 / 134217728, confidence = 17 / 20 \<rparr>,
       \<lparr> ident = HarmId 1 2, start_time = 64 / 25, duration = 1, midi_pitch = Pitch 60, velocity = 65465263 / 134217728, confidence = 17 / 20 \<rparr>,
       \<lparr> ident = MelId 1 (0) 27, start_time = 2, duration = 9 / 40, midi_pitch = Pitch 63, velocity = 9 / 10, confidence = 19 / 20 \<rparr>])"
  by (rule barBody_eq [OF B_bass1 B_harm1]) (simp add: B_mel1)

lemma B_loop: "barLoop (ctxAA 2 4) 1 2 (199, Some 0, []) =
     (212, Some 2, [\<lparr> ident = BassId 1 1, start_time = 2, duration = 3 / 5, midi_pitch = Pitch 41, velocity = 17 / 20, confidence = 49 / 50 \<rparr>,
       \<lparr> ident = BassId 1 3, start_time = 3, duration = 1 / 2, midi_pitch = Pitch 41, velocity = 3 / 4, confidence = 9 / 10 \<rparr>,
       \<lparr> ident = HarmId 1 0, start_time = 5 / 2, duration = 1, midi_pitch = Pitch 53, velocity = 65465263 / 134217728, confidence = 17 / 20 \<rparr>,
       \<lparr> ident = HarmId 1 1, start_time = 253 / 100, duration = 1, midi_pitch = Pitch 56, velocity = 65465263 / 134217728, confidence = 17 / 20 \<rparr>,
       \<lparr> ident = HarmId 1 2, start_time = 64 / 25, duration = 1, midi_pitch = Pitch 60, velocity = 65465263 / 134217728, confidence = 17 / 20 \<rparr>,
       \<lparr> ident = MelId 1 (0) 27, start_time = 2, duration = 9 / 40, midi_pitch = Pitch 63, velocity = 9 / 10, confidence = 19 / 20 \<rparr>])"
  by (simp add: barLoop.simps B_body1 del: One_nat_def)

lemma B_notes: "generateDeterministicNotes ''aa'' 2 4 =
     [\<lparr> ident = BassId 1 1, start_time = 2, duration = 3 / 5, midi_pitch = Pitch 41, velocity = 17 / 20, confidence = 49 / 50 \<rparr>,
      \<lparr> ident = MelId 1 (0) 27, start_time = 2, duration = 9 / 40, midi_pitch = Pitch 63, velocity = 9 / 10, confidence = 19 / 20 \<rparr>,
      \<lparr> ident = HarmId 1 0, start_time = 5 / 2, duration = 1, midi_pitch = Pitch 53, velocity = 65465263 / 134217728, confidence = 17 / 20 \<rparr>,
      \<lparr> ident = HarmId 1 1, start_time = 253 / 100, duration = 1, midi_pitch = Pitch 56, velocity = 65465263 / 134217728, confidence = 17 / 20 \<rparr>,
      \<lparr> ident = HarmId 1 2, start_time = 64 / 25, duration = 1, midi_pitch = Pitch 60, velocity = 65465263 / 134217728, confidence = 17 / 20 \<rparr>,
      \<lparr> ident = BassId 1 3, start_time = 3, duration = 1 / 2, midi_pitch = Pitch 41, velocity = 3 / 4, confidence = 9 / 10 \<rparr>]"
proof -
  have bars: "\<lfloor>(2::real) / BAR_DURATION (ctxAA 2 4)\<rfloor> = 1" "\<lceil>(4::real) / BAR_DURATION (ctxAA 2 4)\<rceil> = 2"
    by (simp_all add: BAR_DURATION_def ctxAA_def)
  show ?thesis
    unfolding generateDeterministicNotes_def seedOf_aa composeFrom_def makeContext_aa Let_def prod.case bars B_loop
    by simp
qed

lemma C_bass0: "bassLayer (ctxAA 1 2) 0 199 =
     ([\<lparr> ident = BassId 0 1, start_time = 0, duration = 3 / 5, midi_pitch = Pitch 44, velocity = 17 / 20, confidence = 49 / 50 \<rparr>,
       \<lparr> ident = BassId 0 3, start_time = 1, duration = 1 / 2, midi_pitch = Pitch 44, velocity = 3 / 4, confidence = 9 / 10 \<rparr>], 201)"
  by (simp add: layer_defs)

lemma C_harm0: "harmonyLayer (ctxAA 1 2) 0 201 =
     ([], 202)"
  by (simp add: layer_defs)

lemma C_mel0: "melodyLoop (ctxAA 1 2) 0 0 202 (Some 0) ns =
     (ns @ [\<lparr> ident = MelId 0 (5 / 2) 12, start_time = 5 / 4, duration = 9 / 40, midi_pitch = Pitch 70, velocity = 7 / 10, confidence = 19 / 20 \<rparr>], 212, Some 6)"
  by (simp add: melodyLoop.simps layer_defs)

lemma C_body0: "barBody (ctxAA 1 2) 0 (199, Some 0, []) =
     (212, Some 6, [\<lparr> ident = BassId 0 1, start_time = 0, duration = 3 / 5, midi_pitch = Pitch 44, velocity = 17 / 20, confidence = 49 / 50 \<rparr>,
       \<lparr> ident = BassId 0 3, start_time = 1, duration = 1 / 2, midi_pitch = Pitch 44, velocity = 3 / 4, confidence = 9 / 10 \<rparr>,
       \<lparr> ident = MelId 0 (5 / 2) 12, start_time = 5 / 4, duration = 9 / 40, midi_pitch = Pitch 70, velocity = 7 / 10, confidence = 19 / 20 \<rparr>])"
  by (rule barBody_eq [OF C_bass0 C_harm0]) (simp add: C_mel0)

lemma C_loop: "barLoop (ctxAA 1 2) 0 1 (199, Some 0, []) =
     (212, Some 6, [\<lparr> ident = BassId 0 1, start_time = 0, duration = 3 / 5, midi_pitch = Pitch 44, velocity = 17 / 20, confidence = 49 / 50 \<rparr>,
       \<lparr> ident = BassId 0 3, start_time = 1, duration = 1 / 2, midi_pitch = Pitch 44, velocity = 3 / 4, confidence = 9 / 10 \<rparr>,
       \<lparr> ident = MelId 0 (5 / 2) 12, start_time = 5 / 4, duration = 9 / 40, midi_pitch = Pitch 70, velocity = 7 / 10, confidence = 19 / 20 \<rparr>])"
  by (simp add: barLoop.simps C_body0 del: One_nat_def)

lemma C_notes: "generateDeterministicNotes ''aa'' 1 2 =
     [\<lparr> ident = BassId 0 1, start_time = 0, duration = 3 / 5, midi_pitch = Pitch 44, velocity = 17 / 20, confidence = 49 / 50 \<rparr>,
      \<lparr> ident = BassId 0 3, start_time = 1, duration = 1 / 2, midi_pitch = Pitch 44, velocity = 3 / 4, confidence = 9 / 10 \<rparr>,
      \<lparr> ident = MelId 0 (5 / 2) 12, start_time = 5 / 4, duration = 9 / 40, midi_pitch = Pitch 70, velocity = 7 / 10, confidence = 19 / 20 \<rparr>]"
proof -
  have bars: "\<lfloor>(1::real) / BAR_DURATION (ctxAA 1 2)\<rfloor> = 0" "\<lceil>(2::real) / BAR_DURATION (ctxAA 1 2)\<rceil> = 1"
    by (simp_all add: BAR_DURATION_def ctxAA_def)
  show ?thesis
    unfolding generateDeterministicNotes_def seedOf_aa composeFrom_def makeContext_aa Let_def prod.case bars C_loop
    by simp
qed

lemma D_bass0: "bassLayer (ctxAA 0 2) 0 199 =
     ([\<lparr> ident = BassId 0 1, start_time = 0, duration = 3 / 5, midi_pitch = Pitch 44, velocity = 17 / 20, confidence = 49 / 50 \<rparr>,
       \<lparr> ident = BassId 0 3, start_time = 1, duration = 1 / 2, midi_pitch = Pitch 44, velocity = 3 / 4, confidence = 9 / 10 \<rparr>], 201)"
  by (simp add: layer_defs)

lemma D_harm0: "harmonyLayer (ctxAA 0 2) 0 201 =
     ([\<lparr> ident = HarmId 0 0, start_time = 1 / 2, duration = 1, midi_pitch = Pitch 56, velocity = 65465263 / 134217728, confidence = 17 / 20 \<rparr>,
       \<lparr> ident = HarmId 0 1, start_time = 53 / 100, duration = 1, midi_pitch = Pitch 60, velocity = 65465263 / 134217728, confidence = 17 / 20 \<rparr>,
       \<lparr> ident = HarmId 0 2, start_time = 14 / 25, duration = 1, midi_pitch = Pitch 63, velocity = 65465263 / 134217728, confidence = 17 / 20 \<rparr>], 202)"
  by (simp add: layer_defs)

lemma D_mel0: "melodyLoop (ctxAA 0 2) 0 0 202 (Some 0) ns =
     (ns @ [\<lparr> ident = MelId 0 (0) 27, start_time = 0, duration = 9 / 40, midi_pitch = Pitch 63, velocity = 9 / 10, confidence = 19 / 20 \<rparr>], 212, Some 2)"
  by (simp add: melodyLoop.simps layer_defs)

lemma D_body0: "barBody (ctxAA 0 2) 0 (199, Some 0, []) =
     (212, Some 2, [\<lparr> ident = BassId 0 1, start_time = 0, duration = 3 / 5, midi_pitch = Pitch 44, velocity = 17 / 20, confidence = 49 / 50 \<rparr>,
       \<lparr> ident = BassId 0 3, start_time = 1, duration = 1 / 2, midi_pitch = Pitch 44, velocity = 3 / 4, confidence = 9 / 10 \<rparr>,
       \<lparr> ident = HarmId 0 0, start_time = 1 / 2, duration = 1, midi_pitch = Pitch 56, velocity = 65465263 / 134217728, confidence = 17 / 20 \<rparr>,
       \<lparr> ident = HarmId 0 1, start_time = 53 / 100, duration = 1, midi_pitch = Pitch 60, velocity = 65465263 / 134217728, confidence = 17 / 20 \<rparr>,
       \<lparr> ident = HarmId 0 2, start_time = 14 / 25, duration = 1, midi_pitch = Pitch 63, velocity = 65465263 / 134217728, confidence = 17 / 20 \<rparr>,
       \<lparr> ident = MelId 0 (0) 27, start_time = 0, duration = 9 / 40, midi_pitch = Pitch 63, velocity = 9 / 10, confidence = 19 / 20 \<rparr>])"
  by (rule barBody_eq [OF D_bass0 D_harm0]) (simp add: D_mel0)

lemma D_loop: "barLoop (ctxAA 0 2) 0 1 (199, Some 0, []) =
     (212, Some 2, [\<lparr> ident = BassId 0 1, start_time = 0, duration = 3 / 5, midi_pitch = Pitch 44, velocity = 17 / 20, confidence = 49 / 50 \<rparr>,
       \<lparr> ident = BassId 0 3, start_time = 1, duration = 1 / 2, midi_pitch = Pitch 44, velocity = 3 / 4, confidence = 9 / 10 \<rparr>,
       \<lparr> ident = HarmId 0 0, start_time = 1 / 2, duration = 1, midi_pitch = Pitch 56, velocity = 65465263 / 134217728, confidence = 17 / 20 \<rparr>,
       \<lparr> ident = HarmId 0 1, start_time = 53 / 100, duration = 1, midi_pitch = Pitch 60, velocity = 65465263 / 134217728, confidence = 17 / 20 \<rparr>,
       \<lparr> ident = HarmId 0 2, start_time = 14 / 25, duration = 1, midi_pitch = Pitch 63, velocity = 65465263 / 134217728, confidence = 17 / 20 \<rparr>,
       \<lparr> ident = MelId 0 (0) 27, start_time = 0, duration = 9 / 40, midi_pitch = Pitch 63, velocity = 9 / 10, confidence = 19 / 20 \<rparr>])"
  by (simp add: barLoop.simps D_body0 del: One_nat_def)

lemma D_notes: "generateDeterministicNotes ''aa'' 0 2 =
     [\<lparr> ident = BassId 0 1, start_time = 0, duration = 3 / 5, midi_pitch = Pitch 44, velocity = 17 / 20, confidence = 49 / 50 \<rparr>,
      \<lparr> ident = MelId 0 (0) 27, start_time = 0, duration = 9 / 40, midi_pitch = Pitch 63, velocity = 9 / 10, confidence = 19 / 20 \<rparr>,
      \<lparr> ident = HarmId 0 0, start_time = 1 / 2, duration = 1, midi_pitch = Pitch 56, velocity = 65465263 / 134217728, confidence = 17 / 20 \<rparr>,
      \<lparr> ident = HarmId 0 1, start_time = 53 / 100, duration = 1, midi_pitch = Pitch 60, velocity = 65465263 / 134217728, confidence = 17 / 20 \<rparr>,
      \<lparr> ident = HarmId 0 2, start_time = 14 / 25, duration = 1, midi_pitch = Pitch 63, velocity = 65465263 / 134217728, confidence = 17 / 20 \<rparr>,
      \<lparr> ident = BassId 0 3, start_time = 1, duration = 1 / 2, midi_pitch = Pitch 44, velocity = 3 / 4, confidence = 9 / 10 \<rparr>]"
proof -
  have bars: "\<lfloor>(0::real) / BAR_DURATION (ctxAA 0 2)\<rfloor> = 0" "\<lceil>(2::real) / BAR_DURATION (ctxAA 0 2)\<rceil> = 1"
    by (simp_all add: BAR_DURATION_def ctxAA_def)
  show ?thesis
    unfolding generateDeterministicNotes_def seedOf_aa composeFrom_def makeContext_aa Let_def prod.case bars D_loop
    by simp
qed

section \<open>Calls on overlapping windows\<close>

lemma barDurationOf_aa: "barDurationOf ''aa'' = 2"
  by (simp add: barDurationOf_def contextOf_def seedOf_aa makeContext_aa BAR_DURATION_def ctxAA_def)

lemma contextOf_aa: "contextOf (seedOf ''aa'') s e = ctxAA s e"
  by (simp add: contextOf_def seedOf_aa makeContext_aa)

text \<open>The records of the context other than the window are the same for every window.\<close>

lemma contextOf_params:
  "BEAT_DURATION (contextOf seed0 s e) = BEAT_DURATION (contextOf seed0 s' e')
   \<and> rootNote (contextOf seed0 s e) = rootNote (contextOf seed0 s' e')
   \<and> scaleIntervals (contextOf seed0 s e) = scaleIntervals (contextOf seed0 s' e')
   \<and> progression (contextOf seed0 s e) = progression (contextOf seed0 s' e')"
  by (simp add: contextOf_def makeContext_def Let_def rng_def)

lemma bassDownbeat_window_indep:
  "bassDownbeat (contextOf seed0 s e) b = bassDownbeat (contextOf seed0 s' e') b"
proof -
  from contextOf_params [of seed0 s e s' e']
  have p: "BEAT_DURATION (contextOf seed0 s e) = BEAT_DURATION (contextOf seed0 s' e')"
    "rootNote (contextOf seed0 s e) = rootNote (contextOf seed0 s' e')"
    "scaleIntervals (contextOf seed0 s e) = scaleIntervals (contextOf seed0 s' e')"
    "progression (contextOf seed0 s e) = progression (contextOf seed0 s' e')"
    by blast+
  show ?thesis
    unfolding bassDownbeat_def BAR_DURATION_def getMidiPitch_def chordAt_def p by (rule refl)
qed

lemma barDurationOf_eq: "barDurationOf v = BAR_DURATION (contextOf (seedOf v) s e)"
  unfolding barDurationOf_def by (rule contextOf_bar)

lemma downbeat_filter:
  assumes "s < e" "\<lfloor>s / barDurationOf v\<rfloor> \<le> b" "b < \<lceil>e / barDurationOf v\<rceil>"
  shows "filter (\<lambda>n. ident n = BassId b 1) (generateDeterministicNotes v s e)
           = [bassDownbeat (contextOf (seedOf v) 0 0) b]"
proof -
  let ?x = "bassDownbeat (contextOf (seedOf v) s e) b"
  have mem: "?x \<in> set (composeFrom (seedOf v) s e)"
    using assms by (intro compose_contains_downbeat) (simp_all add: barDurationOf_eq [of v s e])
  have d: "distinct (map ident (composeFrom (seedOf v) s e))"
    using composeFrom_notesInv [of "seedOf v" s e] by (auto simp: notesInv_def)
  have "filter (\<lambda>n. ident n = ident ?x) (composeFrom (seedOf v) s e) = [?x]"
    by (rule unique_by_ident [OF d mem])
  moreover have "ident ?x = BassId b 1" by (simp add: bassDownbeat_def)
  moreover have "?x = bassDownbeat (contextOf (seedOf v) 0 0) b" by (rule bassDownbeat_window_indep)
  ultimately show ?thesis by (simp add: generateDeterministicNotes_def)
qed





section \<open>Start times and the window\<close>

lemma composeWith_eq:
  "composeWith ctx seed sb eb = sort_key start_time (snd (snd (barLoop ctx sb eb (seed, Some 0, []))))"
proof -
  obtain s' d ns where bl: "barLoop ctx sb eb (seed, Some 0, []) = (s', d, ns)"
    by (metis prod_cases3)
  have "composeWith ctx seed sb eb = sort_key start_time ns"
    unfolding composeWith_def bl Let_def prod.case by (rule refl)
  then show ?thesis by (simp only: bl snd_conv)
qed

lemma composeFrom_composeWith:
  "composeFrom seed0 s e =
     composeWith (contextOf seed0 s e) (seed0 + 5)
       \<lfloor>s / BAR_DURATION (contextOf seed0 s e)\<rfloor> \<lceil>e / BAR_DURATION (contextOf seed0 s e)\<rceil>"
  by (simp only: composeFrom_eq composeWith_eq)

text \<open>The notes of the loop from \<open>sb\<close> to \<open>eb\<close> belong to the bars from \<open>sb\<close> up to \<open>eb\<close>.\<close>

lemma barLoop_bars:
  "\<exists>hi. hi \<le> max sb eb \<and> notesInv ctx sb hi (snd (snd (barLoop ctx sb eb (seed, deg, []))))"
proof -
  have "\<exists>b. (sb \<le> b \<and> b \<le> max sb eb \<and> notesInv ctx sb b (snd (snd (barLoop ctx sb eb (seed, deg, [])))))
           \<and> eb \<le> b"
  proof (rule barLoop_invariant [where J = "\<lambda>b st. sb \<le> b \<and> b \<le> max sb eb \<and> notesInv ctx sb b (snd (snd st))"])
    show "sb \<le> sb \<and> sb \<le> max sb eb \<and> notesInv ctx sb sb (snd (snd (seed, deg, [])))"
      by (simp add: notesInv_def)
  next
    fix b :: int and st :: "int \<times> int option \<times> NoteEvent list"
    assume a: "sb \<le> b \<and> b \<le> max sb eb \<and> notesInv ctx sb b (snd (snd st))" and lt: "b < eb"
    obtain s d ns where st: "st = (s, d, ns)" by (metis prod_cases3)
    from a have inv: "notesInv ctx sb b ns" and lo: "sb \<le> b" by (simp_all add: st)
    have "notesInv ctx sb (b + 1) (snd (snd (barBody ctx b (s, d, ns))))"
      by (rule barBody_notesInv [OF inv lo])
    then show "sb \<le> b + 1 \<and> b + 1 \<le> max sb eb \<and> notesInv ctx sb (b + 1) (snd (snd (barBody ctx b st)))"
      using lo lt by (simp add: st)
  qed
  then show ?thesis by blast
qed

lemma composeWith_note:
  assumes "n \<in> set (composeWith ctx seed sb eb)"
  shows "noteOK ctx n \<and> sb \<le> barOf (ident n) \<and> barOf (ident n) < eb"
proof -
  from barLoop_bars [of sb eb ctx seed "Some 0"] obtain hi where
    hi: "hi \<le> max sb eb" and inv: "notesInv ctx sb hi (snd (snd (barLoop ctx sb eb (seed, Some 0, []))))"
    by blast
  from assms have "n \<in> set (snd (snd (barLoop ctx sb eb (seed, Some 0, []))))"
    by (simp only: composeWith_eq set_sort)
  with inv have ok: "noteOK ctx n" and lo: "sb \<le> barOf (ident n)" and up: "barOf (ident n) < hi"
    by (simp_all add: notesInv_def list_all_iff)
  from lo up hi have "barOf (ident n) < eb" by linarith
  with ok lo show ?thesis by simp
qed

text \<open>
  What the guards of the four emission sites give for one event: the three window filters
  test the start time itself, the guard of the beat-1 bass note tests the later of the
  window start and the bar start.
\<close>

lemma noteOK_window:
  assumes "noteOK ctx n"
  shows "start_time n < endTime ctx
         \<and> (startTime ctx \<le> start_time n \<or> ident n = BassId (barOf (ident n)) 1)"
proof (cases "ident n")
  case (BassId b k)
  show ?thesis
  proof (cases "k = 1")
    case True
    from assms BassId True have n: "n = bassDownbeat ctx b"
      and g: "max (startTime ctx) (real_of_int b * BAR_DURATION ctx) < endTime ctx"
      by (simp_all add: noteOK_def)
    have "start_time n = real_of_int b * BAR_DURATION ctx" by (simp add: n bassDownbeat_def)
    with g have "start_time n < endTime ctx" by simp
    then show ?thesis using BassId True by (simp add: barOf_def)
  next
    case False
    then show ?thesis using assms BassId by (simp add: noteOK_def inWindow_def)
  qed
next
  case (HarmId b k)
  then show ?thesis using assms by (simp add: noteOK_def inWindow_def)
next
  case (MelId b c r)
  then show ?thesis using assms by (simp add: noteOK_def inWindow_def)
next
  case (RealId m k)
  then show ?thesis using assms by (simp add: noteOK_def)
qed

lemma composeWith_window:
  assumes "n \<in> set (composeWith ctx seed sb eb)"
  shows "start_time n < endTime ctx
         \<and> (startTime ctx \<le> start_time n \<or> (\<exists>b. ident n = BassId b 1 \<and> sb \<le> b \<and> b < eb))"
proof -
  from composeWith_note [OF assms]
  have ok: "noteOK ctx n" and lo: "sb \<le> barOf (ident n)" and up: "barOf (ident n) < eb" by simp_all
  from noteOK_window [OF ok]
  have lt: "start_time n < endTime ctx"
    and dis: "startTime ctx \<le> start_time n \<or> ident n = BassId (barOf (ident n)) 1" by simp_all
  from dis show ?thesis
  proof
    assume "startTime ctx \<le> start_time n"
    with lt show ?thesis by simp
  next
    assume "ident n = BassId (barOf (ident n)) 1"
    with lo up have "\<exists>b. ident n = BassId b 1 \<and> sb \<le> b \<and> b < eb" by blast
    with lt show ?thesis by simp
  qed
qed





section \<open>Pitch ranges of the generator\<close>

lemma js_rem_nonneg: "0 \<le> a \<Longrightarrow> 0 < b \<Longrightarrow> js_rem a b = a mod b"
  by (cases "a = 0") (simp_all add: js_rem_def)

lemma js_rem_norm: "js_rem (js_rem d 7 + 7) 7 = d mod 7"
proof (cases "0 \<le> d")
  case True
  then have "js_rem d 7 = d mod 7" by (rule js_rem_nonneg) simp
  moreover have "js_rem (d mod 7 + 7) 7 = (d mod 7 + 7) mod 7"
    by (rule js_rem_nonneg) simp_all
  ultimately show ?thesis by simp
next
  case False
  then have a: "js_rem d 7 = - ((- d) mod 7)" by (simp add: js_rem_def)
  have "0 \<le> - ((- d) mod 7) + 7" by simp
  then have b: "js_rem (- ((- d) mod 7) + 7) 7 = (- ((- d) mod 7) + 7) mod 7"
    by (rule js_rem_nonneg) simp
  have "d mod 7 < 7" by simp
  then have "d mod 7 \<noteq> 7" by linarith
  then have c: "(- ((- d) mod 7) + 7) mod 7 = d mod 7"
    by (simp add: zmod_zminus1_eq_if)
  show ?thesis by (simp only: a b c)
qed

lemma getMidiPitch_Some:
  assumes "wfContext ctx"
  shows "getMidiPitch ctx (Some d) k = Pitch (pitchOf ctx d + k * 12)"
proof -
  have "length (scaleIntervals ctx) = 7" using assms by (auto simp: wfContext_def)
  then have "getMidiPitch ctx (Some d) k
      = Pitch (rootNote ctx + k * 12 + (d div 7) * 12 + scaleIntervals ctx ! nat (js_rem (js_rem d 7 + 7) 7))"
    by (simp add: getMidiPitch_def Let_def)
  then show ?thesis by (simp only: js_rem_norm pitchOf_def) simp
qed


lemma pitchOf_decomp:
  assumes "0 \<le> k" "k < 7"
  shows "pitchOf ctx (7 * q + k) = rootNote ctx + q * 12 + scaleIntervals ctx ! nat k"
proof -
  have "(7 * q + k) mod 7 = k" "(7 * q + k) div 7 = q" using assms by simp_all
  then show ?thesis by (simp only: pitchOf_def)
qed

lemma scale_step:
  assumes "wfContext ctx"
  shows "pitchOf ctx d + 1 \<le> pitchOf ctx (d + 1) \<and> pitchOf ctx (d + 1) \<le> pitchOf ctx d + 2"
proof -
  from assms have sc: "scaleIntervals ctx = [0, 2, 3, 5, 7, 8, 10] \<or> scaleIntervals ctx = [0, 2, 4, 5, 7, 9, 11]"
    by (simp add: wfContext_def)
  have dm: "d = 7 * (d div 7) + d mod 7" by simp
  have "0 \<le> d mod 7" "d mod 7 < 7" by simp_all
  then have "d mod 7 = 0 \<or> d mod 7 = 1 \<or> d mod 7 = 2 \<or> d mod 7 = 3 \<or> d mod 7 = 4
    \<or> d mod 7 = 5 \<or> d mod 7 = 6" by linarith
  then show ?thesis
  proof (elim disjE)
    assume "d mod 7 = 0"
    with dm have e: "d = 7 * (d div 7) + 0" by simp
    then have e': "d + 1 = 7 * (d div 7) + 1" by simp
    have "pitchOf ctx d = rootNote ctx + (d div 7) * 12 + scaleIntervals ctx ! nat 0"
      by (subst e) (rule pitchOf_decomp, simp_all)
    moreover have "pitchOf ctx (d + 1) = rootNote ctx + (d div 7) * 12 + scaleIntervals ctx ! nat 1"
      by (subst e') (rule pitchOf_decomp, simp_all)
    ultimately show ?thesis using sc by auto
  next
    assume "d mod 7 = 1"
    with dm have e: "d = 7 * (d div 7) + 1" by simp
    then have e': "d + 1 = 7 * (d div 7) + 2" by simp
    have "pitchOf ctx d = rootNote ctx + (d div 7) * 12 + scaleIntervals ctx ! nat 1"
      by (subst e) (rule pitchOf_decomp, simp_all)
    moreover have "pitchOf ctx (d + 1) = rootNote ctx + (d div 7) * 12 + scaleIntervals ctx ! nat 2"
      by (subst e') (rule pitchOf_decomp, simp_all)
    ultimately show ?thesis using sc by auto
  next
    assume "d mod 7 = 2"
    with dm have e: "d = 7 * (d div 7) + 2" by simp
    then have e': "d + 1 = 7 * (d div 7) + 3" by simp
    have "pitchOf ctx d = rootNote ctx + (d div 7) * 12 + scaleIntervals ctx ! nat 2"
      by (subst e) (rule pitchOf_decomp, simp_all)
    moreover have "pitchOf ctx (d + 1) = rootNote ctx + (d div 7) * 12 + scaleIntervals ctx ! nat 3"
      by (subst e') (rule pitchOf_decomp, simp_all)
    ultimately show ?thesis using sc by auto
  next
    assume "d mod 7 = 3"
    with dm have e: "d = 7 * (d div 7) + 3" by simp
    then have e': "d + 1 = 7 * (d div 7) + 4" by simp
    have "pitchOf ctx d = rootNote ctx + (d div 7) * 12 + scaleIntervals ctx ! nat 3"
      by (subst e) (rule pitchOf_decomp, simp_all)
    moreover have "pitchOf ctx (d + 1) = rootNote ctx + (d div 7) * 12 + scaleIntervals ctx ! nat 4"
      by (subst e') (rule pitchOf_decomp, simp_all)
    ultimately show ?thesis using sc by auto
  next
    assume "d mod 7 = 4"
    with dm have e: "d = 7 * (d div 7) + 4" by simp
    then have e': "d + 1 = 7 * (d div 7) + 5" by simp
    have "pitchOf ctx d = rootNote ctx + (d div 7) * 12 + scaleIntervals ctx ! nat 4"
      by (subst e) (rule pitchOf_decomp, simp_all)
    moreover have "pitchOf ctx (d + 1) = rootNote ctx + (d div 7) * 12 + scaleIntervals ctx ! nat 5"
      by (subst e') (rule pitchOf_decomp, simp_all)
    ultimately show ?thesis using sc by auto
  next
    assume "d mod 7 = 5"
    with dm have e: "d = 7 * (d div 7) + 5" by simp
    then have e': "d + 1 = 7 * (d div 7) + 6" by simp
    have "pitchOf ctx d = rootNote ctx + (d div 7) * 12 + scaleIntervals ctx ! nat 5"
      by (subst e) (rule pitchOf_decomp, simp_all)
    moreover have "pitchOf ctx (d + 1) = rootNote ctx + (d div 7) * 12 + scaleIntervals ctx ! nat 6"
      by (subst e') (rule pitchOf_decomp, simp_all)
    ultimately show ?thesis using sc by auto
  next
    assume "d mod 7 = 6"
    with dm have e: "d = 7 * (d div 7) + 6" by simp
    then have e': "d + 1 = 7 * (d div 7 + 1) + 0" by simp
    have "pitchOf ctx d = rootNote ctx + (d div 7) * 12 + scaleIntervals ctx ! nat 6"
      by (subst e) (rule pitchOf_decomp, simp_all)
    moreover have "pitchOf ctx (d + 1) = rootNote ctx + (d div 7 + 1) * 12 + scaleIntervals ctx ! nat 0"
      by (subst e') (rule pitchOf_decomp, simp_all)
    ultimately show ?thesis using sc by auto
  qed
qed

lemma scale_octave: "pitchOf ctx (d + 7) = pitchOf ctx d + 12" "pitchOf ctx (d - 7) = pitchOf ctx d - 12"
proof -
  have "(d + 7) mod 7 = d mod 7" "(d + 7) div 7 = d div 7 + 1" by simp_all
  then show "pitchOf ctx (d + 7) = pitchOf ctx d + 12" by (simp add: pitchOf_def)
  have "d - 7 = d + 7 * (- 1)" by simp
  then have "(d - 7) mod 7 = d mod 7" "(d - 7) div 7 = d div 7 - 1"
    by (simp_all only: mod_mult_self2 div_mult_self2)
  then show "pitchOf ctx (d - 7) = pitchOf ctx d - 12" by (simp add: pitchOf_def)
qed

lemma scale_near:
  assumes "wfContext ctx" "- 2 \<le> k" "k \<le> 2"
  shows "pitchOf ctx d - 4 \<le> pitchOf ctx (d + k) \<and> pitchOf ctx (d + k) \<le> pitchOf ctx d + 4"
proof -
  from assms(2,3) consider "k = - 2" | "k = - 1" | "k = 0" | "k = 1" | "k = 2" by linarith
  then show ?thesis
  proof cases
    case 1
    then show ?thesis
      using scale_step [OF assms(1), of "d - 2"] scale_step [OF assms(1), of "d - 1"] by simp
  next
    case 2
    then show ?thesis using scale_step [OF assms(1), of "d - 1"] by simp
  next
    case 3
    then show ?thesis by simp
  next
    case 4
    then show ?thesis using scale_step [OF assms(1), of d] by simp
  next
    case 5
    then show ?thesis
      using scale_step [OF assms(1), of d] scale_step [OF assms(1), of "d + 1"] by (simp add: add.assoc)
  qed
qed

text \<open>The degrees 0 to 9, which the chord tones of a bar use, lie within 16 semitones above the root.\<close>

lemma scale_low_degrees:
  assumes "wfContext ctx" "0 \<le> d" "d \<le> 9"
  shows "rootNote ctx \<le> pitchOf ctx d \<and> pitchOf ctx d \<le> rootNote ctx + 16"
proof -
  from assms(1) have sc: "scaleIntervals ctx = [0, 2, 3, 5, 7, 8, 10] \<or> scaleIntervals ctx = [0, 2, 4, 5, 7, 9, 11]"
    by (simp add: wfContext_def)
  from assms(2,3) have "d = 0 \<or> d = 1 \<or> d = 2 \<or> d = 3 \<or> d = 4 \<or> d = 5 \<or> d = 6
    \<or> d = 7 \<or> d = 8 \<or> d = 9" by arith
  then show ?thesis using sc by (elim disjE) (simp_all add: pitchOf_def)
qed

lemma contextOf_wf: "wfContext (contextOf seed0 s e)"
proof -
  have root: "rootNote (contextOf seed0 s e) = 58 + \<lfloor>getSeededRandom (seed0 + 3) * 12\<rfloor>"
    by (simp add: contextOf_def makeContext_def Let_def rng_def add.commute)
  have sc: "scaleIntervals (contextOf seed0 s e) = [0, 2, 3, 5, 7, 8, 10]
            \<or> scaleIntervals (contextOf seed0 s e) = [0, 2, 4, 5, 7, 9, 11]"
    by (simp add: contextOf_def makeContext_def Let_def rng_def)
  have pr: "progression (contextOf seed0 s e) = PROGRESSIONS ! nat \<lfloor>getSeededRandom (seed0 + 4) * 4\<rfloor>"
    by (simp add: contextOf_def makeContext_def Let_def rng_def PROGRESSIONS_def add.commute)
  have r12: "0 \<le> \<lfloor>getSeededRandom (seed0 + 3) * 12\<rfloor> \<and> \<lfloor>getSeededRandom (seed0 + 3) * 12\<rfloor> < 12"
    using floor_draw_range [of 12 "seed0 + 3"] by simp
  have r4: "0 \<le> \<lfloor>getSeededRandom (seed0 + 4) * 4\<rfloor> \<and> \<lfloor>getSeededRandom (seed0 + 4) * 4\<rfloor> < 4"
    using floor_draw_range [of 4 "seed0 + 4"] by simp
  then have "nat \<lfloor>getSeededRandom (seed0 + 4) * 4\<rfloor> < 4" by linarith
  moreover have "length PROGRESSIONS = 4" by (simp add: PROGRESSIONS_def)
  ultimately have "nat \<lfloor>getSeededRandom (seed0 + 4) * 4\<rfloor> < length PROGRESSIONS"
    by (simp only:)
  then have "progression (contextOf seed0 s e) \<in> set PROGRESSIONS"
    by (simp only: pr nth_mem)
  then show ?thesis
    using root r12 sc contextOf_beat_pos [of seed0 s e] by (simp add: wfContext_def)
qed

lemma chordAt_range:
  assumes "wfContext ctx" "0 \<le> bar"
  shows "\<exists>c. chordAt ctx bar = Some c \<and> 0 \<le> c \<and> c \<le> 5"
proof -
  have r: "js_rem bar 4 = bar mod 4" using assms(2) by (simp add: js_rem_nonneg)
  have "0 \<le> bar mod 4" "bar mod 4 < 4" by simp_all
  then have k: "bar mod 4 = 0 \<or> bar mod 4 = 1 \<or> bar mod 4 = 2 \<or> bar mod 4 = 3" by arith
  from assms(1) have p: "progression ctx = [0, 4, 5, 3] \<or> progression ctx = [1, 4, 0, 5]
      \<or> progression ctx = [0, 5, 3, 4] \<or> progression ctx = [5, 3, 0, 4]"
    by (simp add: wfContext_def PROGRESSIONS_def)
  have "0 \<le> progression ctx ! nat (bar mod 4) \<and> progression ctx ! nat (bar mod 4) \<le> 5"
    using k p by (elim disjE) simp_all
  then show ?thesis by (simp add: chordAt_def Let_def r)
qed

text \<open>A chord tone up to four degrees above the chord root, at octave offset \<open>k\<close>.\<close>

lemma chordTone_pitch:
  assumes "wfContext ctx" "0 \<le> bar" "0 \<le> i" "i \<le> 4"
  shows "\<exists>d. degree_plus (chordAt ctx bar) i = Some d
            \<and> getMidiPitch ctx (Some d) k = Pitch (pitchOf ctx d + k * 12)
            \<and> 58 \<le> pitchOf ctx d \<and> pitchOf ctx d \<le> 85"
proof -
  from chordAt_range [OF assms(1,2)] obtain c where c: "chordAt ctx bar = Some c" "0 \<le> c" "c \<le> 5"
    by blast
  have d: "degree_plus (chordAt ctx bar) i = Some (c + i)" by (simp add: c(1) degree_plus_def)
  have "0 \<le> c + i" "c + i \<le> 9" using c assms(3,4) by simp_all
  from scale_low_degrees [OF assms(1) this]
  have "rootNote ctx \<le> pitchOf ctx (c + i) \<and> pitchOf ctx (c + i) \<le> rootNote ctx + 16" .
  moreover have "58 \<le> rootNote ctx" "rootNote ctx \<le> 69" using assms(1) by (simp_all add: wfContext_def)
  ultimately have "58 \<le> pitchOf ctx (c + i) \<and> pitchOf ctx (c + i) \<le> 85" by linarith
  then show ?thesis using d getMidiPitch_Some [OF assms(1), of "c + i" k] by simp
qed

lemma bass_pitch_range:
  assumes "wfContext ctx" "0 \<le> bar" "0 \<le> i" "i \<le> 4"
  shows "pitchBetween 34 61 (getMidiPitch ctx (degree_plus (chordAt ctx bar) i) (- 2))"
  using chordTone_pitch [OF assms, of "- 2"] by (auto simp: pitchBetween_def)

lemma harmony_pitch_range:
  assumes "wfContext ctx" "0 \<le> bar" "0 \<le> i" "i \<le> 4"
  shows "pitchBetween 46 73 (getMidiPitch ctx (degree_plus (chordAt ctx bar) i) (- 1))"
  using chordTone_pitch [OF assms, of "- 1"] by (auto simp: pitchBetween_def)

lemma rangeClamp_range:
  assumes "wfContext ctx" "54 \<le> pitchOf ctx d" "pitchOf ctx d \<le> 88"
  shows "\<exists>d'. rangeClamp ctx (Some d) = Some d' \<and> 60 \<le> pitchOf ctx d' \<and> pitchOf ctx d' \<le> 84"
proof -
  have g: "getMidiPitch ctx (Some x) 0 = Pitch (pitchOf ctx x)" for x
    using getMidiPitch_Some [OF assms(1), of x 0] by simp
  show ?thesis
  proof (cases "84 < pitchOf ctx d")
    case True
    have "pitchOf ctx (d + - 7) = pitchOf ctx d - 12" using scale_octave(2) [of ctx d] by simp
    then show ?thesis using True assms(3)
      by (simp add: rangeClamp_def Let_def g pitch_gt_def pitch_lt_def degree_plus_def)
  next
    case False
    show ?thesis
    proof (cases "pitchOf ctx d < 60")
      case True
      then show ?thesis using False assms(2)
        by (simp add: rangeClamp_def Let_def g pitch_gt_def pitch_lt_def degree_plus_def scale_octave(1))
    next
      case nl: False
      then show ?thesis using False
        by (simp add: rangeClamp_def Let_def g pitch_gt_def pitch_lt_def degree_plus_def)
    qed
  qed
qed

lemma melodyTarget_range:
  assumes wf: "wfContext ctx" and bar: "0 \<le> bar" and ld: "degreeInv ctx lastDeg"
    and step: "step = 1 \<or> step = - 1"
  shows "\<exists>d. melodyTarget ctx bar cb dur chordTone step lastDeg = Some d
             \<and> 54 \<le> pitchOf ctx d \<and> pitchOf ctx d \<le> 88"
proof (cases "cb \<ge> 3 \<and> dur \<ge> 1")
  case True
  from chordTone_pitch [OF wf bar, of 4 0] chordTone_pitch [OF wf bar, of 0 0]
  obtain d4 d0 where "degree_plus (chordAt ctx bar) 4 = Some d4" "58 \<le> pitchOf ctx d4" "pitchOf ctx d4 \<le> 85"
    "degree_plus (chordAt ctx bar) 0 = Some d0" "58 \<le> pitchOf ctx d0" "pitchOf ctx d0 \<le> 85"
    by auto
  moreover have "degree_plus (chordAt ctx bar) 0 = chordAt ctx bar"
    by (cases "chordAt ctx bar") (simp_all add: degree_plus_def)
  ultimately show ?thesis using True by (simp add: melodyTarget_def Let_def)
next
  case False
  from ld obtain l where l: "lastDeg = Some l" "58 \<le> pitchOf ctx l" "pitchOf ctx l \<le> 84"
    by (cases lastDeg) (simp_all add: degreeInv_def)
  have "\<exists>k. melodyTarget ctx bar cb dur chordTone step lastDeg = Some (l + k) \<and> - 2 \<le> k \<and> k \<le> 2"
  proof (cases chordTone)
    case None
    have "melodyTarget ctx bar cb dur chordTone step lastDeg = Some (l + step)"
      using False by (auto simp: melodyTarget_def Let_def l(1) None degree_plus_def degree_less_def)
    then show ?thesis using step by auto
  next
    case (Some t)
    have "melodyTarget ctx bar cb dur chordTone step lastDeg = Some (l + step)
        \<or> melodyTarget ctx bar cb dur chordTone step lastDeg = Some (l + step + 1)
        \<or> melodyTarget ctx bar cb dur chordTone step lastDeg = Some (l + step + - 1)"
      using False by (auto simp: melodyTarget_def Let_def l(1) Some degree_plus_def degree_less_def)
    then show ?thesis
    proof (elim disjE)
      assume "melodyTarget ctx bar cb dur chordTone step lastDeg = Some (l + step)"
      then show ?thesis using step by auto
    next
      assume "melodyTarget ctx bar cb dur chordTone step lastDeg = Some (l + step + 1)"
      then have "melodyTarget ctx bar cb dur chordTone step lastDeg = Some (l + (step + 1))"
        by (simp add: add.assoc)
      moreover have "- 2 \<le> step + 1 \<and> step + 1 \<le> 2" using step by auto
      ultimately show ?thesis by blast
    next
      assume "melodyTarget ctx bar cb dur chordTone step lastDeg = Some (l + step + - 1)"
      then have "melodyTarget ctx bar cb dur chordTone step lastDeg = Some (l + (step - 1))"
        by (simp add: add.assoc)
      moreover have "- 2 \<le> step - 1 \<and> step - 1 \<le> 2" using step by auto
      ultimately show ?thesis by blast
    qed
  qed
  then obtain k where k: "melodyTarget ctx bar cb dur chordTone step lastDeg = Some (l + k)" "- 2 \<le> k" "k \<le> 2"
    by blast
  from scale_near [OF wf k(2,3), of l] l(2,3)
  have "54 \<le> pitchOf ctx (l + k) \<and> pitchOf ctx (l + k) \<le> 88" by linarith
  then show ?thesis using k(1) by simp
qed

lemma melodyNote_degree:
  "\<exists>chordTone step. (step = 1 \<or> step = - 1)
     \<and> snd (snd (melodyNote ctx bar cb dur s deg))
         = rangeClamp ctx (melodyTarget ctx bar cb dur chordTone step deg)"
proof -
  have "snd (snd (melodyNote ctx bar cb dur s deg))
         = rangeClamp ctx (melodyTarget ctx bar cb dur
              (degree_plus (chordAt ctx bar) (if getSeededRandom s > 0.5 then 0 else 2))
              (if getSeededRandom (s + 1) > 0.5 then 1 else - 1) deg)"
    by (simp add: melodyNote_def Let_def rng_def)
  moreover have "(if getSeededRandom (s + 1) > 0.5 then 1 else - 1) = (1::int)
      \<or> (if getSeededRandom (s + 1) > 0.5 then 1 else - 1) = (- 1::int)" by simp
  ultimately show ?thesis by blast
qed

lemma melodyNote_range:
  assumes wf: "wfContext ctx" and bar: "0 \<le> bar" and last: "degreeInv ctx deg"
  shows "degreeInv ctx (snd (snd (melodyNote ctx bar cb dur s deg)))
         \<and> pitchBetween 60 84 (midi_pitch (fst (melodyNote ctx bar cb dur s deg)))"
proof -
  from melodyNote_degree [of ctx bar cb dur s deg] obtain ct st where
    st: "st = 1 \<or> st = - 1"
    and e: "snd (snd (melodyNote ctx bar cb dur s deg)) = rangeClamp ctx (melodyTarget ctx bar cb dur ct st deg)"
    by blast
  from melodyTarget_range [OF wf bar last st, of cb dur ct] obtain d where
    d: "melodyTarget ctx bar cb dur ct st deg = Some d" "54 \<le> pitchOf ctx d" "pitchOf ctx d \<le> 88"
    by blast
  from rangeClamp_range [OF wf d(2,3)] obtain d' where
    d': "rangeClamp ctx (Some d) = Some d'" "60 \<le> pitchOf ctx d'" "pitchOf ctx d' \<le> 84"
    by blast
  have deg': "snd (snd (melodyNote ctx bar cb dur s deg)) = Some d'" by (simp only: e d(1) d'(1))
  have "midi_pitch (fst (melodyNote ctx bar cb dur s deg)) = Pitch (pitchOf ctx d')"
    using getMidiPitch_Some [OF wf, of d' 0] by (simp add: melodyNote_pitch deg')
  then show ?thesis using d'(2,3) by (simp add: deg' degreeInv_def pitchBetween_def)
qed


lemma degree_plus_zero: "degree_plus d 0 = d"
  by (cases d) (simp_all add: degree_plus_def)

lemma bassLayer_pitch:
  assumes wf: "wfContext ctx" and bar: "0 \<le> bar" and n: "n \<in> set (fst (bassLayer ctx bar seed))"
  shows "composedPitchOK n"
proof -
  from n bassLayer_cases [of ctx bar seed]
  have "n = bassDownbeat ctx bar \<or> n = bassSecond ctx bar 0 \<or> n = bassSecond ctx bar 4" by auto
  moreover have "composedPitchOK (bassDownbeat ctx bar)"
    using bass_pitch_range [OF wf bar, of 0]
    by (simp add: composedPitchOK_def bassDownbeat_def degree_plus_zero)
  moreover have "composedPitchOK (bassSecond ctx bar 0)"
    using bass_pitch_range [OF wf bar, of 0] by (simp add: composedPitchOK_def bassSecond_def)
  moreover have "composedPitchOK (bassSecond ctx bar 4)"
    using bass_pitch_range [OF wf bar, of 4] by (simp add: composedPitchOK_def bassSecond_def)
  ultimately show ?thesis by blast
qed

lemma harmonyLayer_pitch:
  assumes wf: "wfContext ctx" and bar: "0 \<le> bar" and n: "n \<in> set (fst (harmonyLayer ctx bar seed))"
  shows "composedPitchOK n"
proof -
  from harmonyLayer_noteOK [OF n] obtain idx where ok: "noteOK ctx n" and i: "ident n = HarmId bar idx"
    by blast
  from ok i have idx: "idx < 3"
    and p: "midi_pitch n = getMidiPitch ctx (degree_plus (chordAt ctx bar) (2 * int idx)) (- 1)"
    by (simp_all add: noteOK_def)
  have "0 \<le> 2 * int idx" "2 * int idx \<le> 4" using idx by simp_all
  from harmony_pitch_range [OF wf bar this] show ?thesis
    by (simp add: composedPitchOK_def i p)
qed

lemma melodyLoop_pitch:
  assumes wf: "wfContext ctx" and bar: "0 \<le> bar"
    and deg: "degreeInv ctx deg" and ns: "list_all composedPitchOK ns"
  shows "degreeInv ctx (snd (snd (melodyLoop ctx bar cb seed deg ns)))
         \<and> list_all composedPitchOK (fst (melodyLoop ctx bar cb seed deg ns))"
proof -
  have "case melodyLoop ctx bar cb seed deg ns of (ns', s', deg') \<Rightarrow>
          \<exists>cb' :: real. degreeInv ctx deg' \<and> list_all composedPitchOK ns'"
  proof (rule melodyLoop_invariant [where I = "\<lambda>cb deg ns. degreeInv ctx deg \<and> list_all composedPitchOK ns"])
    show "degreeInv ctx deg \<and> list_all composedPitchOK ns" using deg ns by simp
  next
    fix cb deg ns and dur :: real
    assume "degreeInv ctx deg \<and> list_all composedPitchOK ns"
    then show "degreeInv ctx deg \<and> list_all composedPitchOK ns" .
  next
    fix cb deg ns and dur :: real and s n s' deg'
    assume a: "degreeInv ctx deg \<and> list_all composedPitchOK ns"
      and mn: "melodyNote ctx bar cb dur s deg = (n, s', deg')"
    from a have d: "degreeInv ctx deg" by simp
    from melodyNote_range [OF wf bar d, of cb dur s] mn
    have r: "degreeInv ctx deg'" "pitchBetween 60 84 (midi_pitch n)" by simp_all
    from melodyNote_ident [of ctx bar cb dur s deg] mn obtain r3 where "ident n = MelId bar cb r3"
      by auto
    with r(2) have "composedPitchOK n" by (simp add: composedPitchOK_def)
    with a r(1) show "degreeInv ctx deg' \<and> list_all composedPitchOK (ns @ [n])" by simp
  qed
  then show ?thesis by (cases "melodyLoop ctx bar cb seed deg ns") auto
qed

lemma barBody_degree:
  "fst (snd (barBody ctx b (seed, deg, ns))) =
      snd (snd (melodyLoop ctx b 0 (snd (harmonyLayer ctx b (snd (bassLayer ctx b seed)))) deg
                 (ns @ fst (bassLayer ctx b seed) @ fst (harmonyLayer ctx b (snd (bassLayer ctx b seed))))))"
proof -
  obtain bass s1 where bl: "bassLayer ctx b seed = (bass, s1)" by (cases "bassLayer ctx b seed")
  obtain harm s2 where hl: "harmonyLayer ctx b s1 = (harm, s2)" by (cases "harmonyLayer ctx b s1")
  obtain ns' s3 d' where ml: "melodyLoop ctx b 0 s2 deg (ns @ bass @ harm) = (ns', s3, d')"
    by (metis prod_cases3)
  have e: "barBody ctx b (seed, deg, ns) = (s3, d', ns')" by (rule barBody_eq [OF bl hl ml])
  have "snd (snd (melodyLoop ctx b 0 (snd (harmonyLayer ctx b (snd (bassLayer ctx b seed)))) deg
                 (ns @ fst (bassLayer ctx b seed) @ fst (harmonyLayer ctx b (snd (bassLayer ctx b seed)))))) = d'"
    by (simp only: bl hl ml fst_conv snd_conv)
  then show ?thesis by (simp only: e fst_conv snd_conv)
qed

lemma barBody_pitch:
  assumes wf: "wfContext ctx" and bar: "0 \<le> b"
    and deg: "degreeInv ctx deg" and ns: "list_all composedPitchOK ns"
  shows "degreeInv ctx (fst (snd (barBody ctx b (seed, deg, ns))))
         \<and> list_all composedPitchOK (snd (snd (barBody ctx b (seed, deg, ns))))"
proof -
  let ?bass = "fst (bassLayer ctx b seed)"
  let ?harm = "fst (harmonyLayer ctx b (snd (bassLayer ctx b seed)))"
  have "list_all composedPitchOK ?bass"
    using bassLayer_pitch [OF wf bar] by (simp add: list_all_iff)
  moreover have "list_all composedPitchOK ?harm"
    using harmonyLayer_pitch [OF wf bar] by (simp add: list_all_iff)
  ultimately have "list_all composedPitchOK (ns @ ?bass @ ?harm)" using ns by simp
  from melodyLoop_pitch [OF wf bar deg this]
  show ?thesis by (simp only: barBody_degree barBody_notes)
qed

lemma barLoop_pitch:
  assumes wf: "wfContext ctx" and bar: "0 \<le> bar" and deg: "degreeInv ctx deg"
  shows "list_all composedPitchOK (snd (snd (barLoop ctx bar endBar (seed, deg, []))))"
proof -
  have "\<exists>b. (0 \<le> b \<and> degreeInv ctx (fst (snd (barLoop ctx bar endBar (seed, deg, []))))
             \<and> list_all composedPitchOK (snd (snd (barLoop ctx bar endBar (seed, deg, [])))))
           \<and> endBar \<le> b"
  proof (rule barLoop_invariant [where J = "\<lambda>b st. 0 \<le> b \<and> degreeInv ctx (fst (snd st))
             \<and> list_all composedPitchOK (snd (snd st))"])
    show "0 \<le> bar \<and> degreeInv ctx (fst (snd (seed, deg, [])))
          \<and> list_all composedPitchOK (snd (snd (seed, deg, [])))"
      using bar deg by simp
  next
    fix b :: int and st :: "int \<times> int option \<times> NoteEvent list"
    assume a: "0 \<le> b \<and> degreeInv ctx (fst (snd st)) \<and> list_all composedPitchOK (snd (snd st))"
    obtain s d ns where st: "st = (s, d, ns)" by (metis prod_cases3)
    from a have b0: "0 \<le> b" and dd: "degreeInv ctx d" and nn: "list_all composedPitchOK ns"
      by (simp_all add: st)
    from barBody_pitch [OF wf b0 dd nn, of s] b0
    show "0 \<le> b + 1 \<and> degreeInv ctx (fst (snd (barBody ctx b st)))
          \<and> list_all composedPitchOK (snd (snd (barBody ctx b st)))"
      by (simp add: st)
  qed
  then show ?thesis by blast
qed

lemma composedPitchOK_midi: "composedPitchOK n \<Longrightarrow> pitchBetween 0 127 (midi_pitch n)"
  by (cases "ident n"; cases "midi_pitch n") (simp_all add: composedPitchOK_def pitchBetween_def)

lemma compose_pitch_range:
  assumes "0 \<le> s"
  shows "list_all composedPitchOK (generateDeterministicNotes videoId s e)"
proof -
  let ?ctx = "contextOf (seedOf videoId) s e"
  have wf: "wfContext ?ctx" by (rule contextOf_wf)
  have "0 \<le> s / BAR_DURATION ?ctx" using assms contextOf_bar_pos [of "seedOf videoId" s e] by simp
  then have sb: "0 \<le> \<lfloor>s / BAR_DURATION ?ctx\<rfloor>" by simp
  have "58 \<le> rootNote ?ctx" "rootNote ?ctx \<le> 69"
    and sc: "scaleIntervals ?ctx = [0, 2, 3, 5, 7, 8, 10] \<or> scaleIntervals ?ctx = [0, 2, 4, 5, 7, 9, 11]"
    using wf by (simp_all add: wfContext_def)
  then have d0: "degreeInv ?ctx (Some 0)" by (auto simp: degreeInv_def pitchOf_def)
  from barLoop_pitch [OF wf sb d0]
  have "list_all composedPitchOK (snd (snd (barLoop ?ctx \<lfloor>s / BAR_DURATION ?ctx\<rfloor>
      \<lceil>e / BAR_DURATION ?ctx\<rceil> (seedOf videoId + 5, Some 0, []))))" .
  then show ?thesis
    by (simp add: generateDeterministicNotes_def composeFrom_eq list_all_iff)
qed



section \<open>Pitch range of the events\<close>

lemma hzToMidi_in_range:
  assumes "0 < f"
  shows "pitchBetween 0 127 (hzToMidi (Fin f))
         \<longleftrightarrow> 2 powr (- 139 / 24) \<le> f / 440 \<and> f / 440 < 2 powr (117 / 24)"
proof -
  have r: "0 < f / 440" using assms by simp
  have one: "(1::real) < 2" by simp
  let ?x = "69 + 12 * log 2 (f / 440)"
  have lo: "2 powr (- 139 / 24) \<le> f / 440 \<longleftrightarrow> - 139 / 24 \<le> log 2 (f / 440)"
    by (rule le_log_iff [OF one r, symmetric])
  have hi: "f / 440 < 2 powr (117 / 24) \<longleftrightarrow> log 2 (f / 440) < 117 / 24"
    by (rule log_less_iff [OF one r, symmetric])
  have A: "0 \<le> \<lfloor>?x + 1 / 2\<rfloor> \<longleftrightarrow> - 139 / 24 \<le> log 2 (f / 440)"
    by (simp only: zero_le_floor) (auto simp: field_simps)
  have B: "\<lfloor>?x + 1 / 2\<rfloor> \<le> 127 \<longleftrightarrow> log 2 (f / 440) < 117 / 24"
  proof -
    have "\<lfloor>?x + 1 / 2\<rfloor> \<le> 127 \<longleftrightarrow> \<lfloor>?x + 1 / 2\<rfloor> < 128" by linarith
    also have "\<dots> \<longleftrightarrow> ?x + 1 / 2 < 128" by (simp only: floor_less_iff) simp
    also have "\<dots> \<longleftrightarrow> log 2 (f / 440) < 117 / 24" by (auto simp: field_simps)
    finally show ?thesis .
  qed
  have p: "hzToMidi (Fin f) = Pitch \<lfloor>?x + 1 / 2\<rfloor>"
    using assms by (simp add: hzToMidi_def round_def)
  have "pitchBetween 0 127 (hzToMidi (Fin f)) \<longleftrightarrow> 0 \<le> \<lfloor>?x + 1 / 2\<rfloor> \<and> \<lfloor>?x + 1 / 2\<rfloor> \<le> 127"
    by (simp only: p pitchBetween_def pitch.case)
  also have "\<dots> \<longleftrightarrow> - 139 / 24 \<le> log 2 (f / 440) \<and> log 2 (f / 440) < 117 / 24"
    by (simp only: A B)
  also have "\<dots> \<longleftrightarrow> 2 powr (- 139 / 24) \<le> f / 440 \<and> f / 440 < 2 powr (117 / 24)"
    by (simp only: lo hi)
  finally show ?thesis .
qed

lemma hzToMidi_band_iff: "pitchBetween 0 127 (hzToMidi x) \<longleftrightarrow> inMidiBand x"
proof (cases x)
  case (Fin f)
  show ?thesis
  proof (cases "0 < f")
    case True
    then show ?thesis using hzToMidi_in_range [OF True] by (simp add: Fin inMidiBand_def)
  next
    case False
    have "0 < (2::real) powr (- 139 / 24)" by simp
    moreover have "f / 440 \<le> 0" using False by simp
    ultimately have "\<not> 2 powr (- 139 / 24) \<le> f / 440" by linarith
    then show ?thesis using False by (simp add: Fin inMidiBand_def hzToMidi_def pitchBetween_def)
  qed
qed (simp_all add: inMidiBand_def hzToMidi_def pitchBetween_def)

text \<open>
  The pitch of the open note and the pitches of the notes pushed so far are conversions of
  frequencies the estimator returned on windows of the sweep.
\<close>

lemma processWindow_pitches:
  assumes j: "j \<in> set (windowStarts seg)"
    and opn: "currentNoteStart st \<noteq> - 1 \<longrightarrow> currentNotePitch st \<in> hzToMidi ` set (trackedFrequencies sr seg)"
    and lst: "\<forall>n\<in>set (noteList st). n_pitch n \<in> hzToMidi ` set (trackedFrequencies sr seg)"
  shows "(currentNoteStart (processWindow sr t j (chunkAt seg j) st) \<noteq> - 1 \<longrightarrow>
            currentNotePitch (processWindow sr t j (chunkAt seg j) st) \<in> hzToMidi ` set (trackedFrequencies sr seg))
         \<and> (\<forall>n\<in>set (noteList (processWindow sr t j (chunkAt seg j) st)).
               n_pitch n \<in> hzToMidi ` set (trackedFrequencies sr seg))"
proof (cases "rms (chunkAt seg j) < 0.02")
  case True
  then show ?thesis using opn lst by (auto simp: processWindow_def closeNote_def)
next
  case loud: False
  show ?thesis
  proof (cases "js_positive (autoCorrelate (chunkAt seg j) sr)")
    case False
    then show ?thesis using loud opn lst by (simp add: processWindow_def Let_def)
  next
    case True
    have "autoCorrelate (chunkAt seg j) sr \<in> set (trackedFrequencies sr seg)"
      using j loud True by (simp add: trackedFrequencies_def)
    then have new: "hzToMidi (autoCorrelate (chunkAt seg j) sr) \<in> hzToMidi ` set (trackedFrequencies sr seg)"
      by (rule imageI)
    show ?thesis using loud True opn lst new
      by (auto simp: processWindow_def Let_def closeNote_def)
  qed
qed

lemma sweep_pitches:
  "(currentNoteStart (sweep sr t seg 0 initialState) \<noteq> - 1 \<longrightarrow>
       currentNotePitch (sweep sr t seg 0 initialState) \<in> hzToMidi ` set (trackedFrequencies sr seg))
   \<and> (\<forall>n\<in>set (noteList (sweep sr t seg 0 initialState)).
          n_pitch n \<in> hzToMidi ` set (trackedFrequencies sr seg))"
proof -
  let ?I = "\<lambda>j st. 1024 dvd j
      \<and> (currentNoteStart st \<noteq> - 1 \<longrightarrow> currentNotePitch st \<in> hzToMidi ` set (trackedFrequencies sr seg))
      \<and> (\<forall>n\<in>set (noteList st). n_pitch n \<in> hzToMidi ` set (trackedFrequencies sr seg))"
  have "\<exists>j. ?I j (sweep sr t seg 0 initialState) \<and> \<not> int j < int (length seg) - 2048"
  proof (rule sweep_invariant [where I = ?I])
    show "?I (0::nat) initialState" by (simp add: initialState_def)
  next
    fix j :: nat and s :: SweepState
    assume a: "?I j s" and b: "int j < int (length seg) - 2048"
    from a b have j: "j \<in> set (windowStarts seg)" using windowStarts_visited by blast
    from a have d: "1024 dvd j + 1024" by simp
    from a have opn:
      "currentNoteStart s \<noteq> - 1 \<longrightarrow> currentNotePitch s \<in> hzToMidi ` set (trackedFrequencies sr seg)"
      and lst: "\<forall>n\<in>set (noteList s). n_pitch n \<in> hzToMidi ` set (trackedFrequencies sr seg)"
      by blast+
    from processWindow_pitches [OF j opn lst, of t] d
    show "?I (j + 1024) (processWindow sr t j (chunkAt seg j) s)" by blast
  qed
  then show ?thesis by blast
qed

lemma pitches_of_events: "map midi_pitch (map toEvent (zip raw [0 ..< length raw])) = map n_pitch raw"
proof -
  have "map midi_pitch (map toEvent (zip raw [0 ..< length raw]))
      = map (n_pitch \<circ> fst) (zip raw [0 ..< length raw])"
    by (simp add: toEvent_def Let_def comp_def)
  also have "\<dots> = map n_pitch (map fst (zip raw [0 ..< length raw]))"
    by (simp only: map_map)
  also have "map fst (zip raw [0 ..< length raw]) = raw"
    by (rule map_fst_zip) simp
  finally show ?thesis .
qed

lemma analyze_pitches:
  "set (map midi_pitch (analyzeAudioSegment b t d))
     \<subseteq> set (map hzToMidi (trackedFrequencies (sampleRate b) (segmentOf b t d)))"
proof -
  let ?st = "sweep (sampleRate b) t (segmentOf b t d) 0 initialState"
  let ?raw = "closeFinal (sampleRate b) t (segmentOf b t d) ?st"
  have "\<forall>n\<in>set ?raw. n_pitch n \<in> hzToMidi ` set (trackedFrequencies (sampleRate b) (segmentOf b t d))"
    using sweep_pitches [of "sampleRate b" t "segmentOf b t d"]
    by (auto simp: closeFinal_def closeNote_def)
  then have "set (map n_pitch ?raw) \<subseteq> set (map hzToMidi (trackedFrequencies (sampleRate b) (segmentOf b t d)))"
    by auto
  then show ?thesis
    by (simp only: analyzeAudioSegment_def Let_def pitches_of_events)
qed

text \<open>For the seed \<^verbatim>\<open>"aa"\<close> the beat-1 bass note of bar \<open>- 1\<close> has no pitch.\<close>

lemma negative_bar_pitch:
  "bassDownbeat (contextOf (seedOf ''aa'') (- 2) 0) (- 1) \<in> set (generateDeterministicNotes ''aa'' (- 2) 0)
   \<and> bassDownbeat (contextOf (seedOf ''aa'') (- 2) 0) (- 1) =
       \<lparr> ident = BassId (- 1) 1, start_time = - 2, duration = 3 / 5, midi_pitch = PitchNaN,
         velocity = 17 / 20, confidence = 49 / 50 \<rparr>"
proof -
  have bars: "\<lfloor>(- 2::real) / BAR_DURATION (contextOf (seedOf ''aa'') (- 2) 0)\<rfloor> = - 1"
    "\<lceil>(0::real) / BAR_DURATION (contextOf (seedOf ''aa'') (- 2) 0)\<rceil> = 0"
    by (simp_all add: contextOf_aa BAR_DURATION_def ctxAA_def floor_eq_iff)
  have "bassDownbeat (contextOf (seedOf ''aa'') (- 2) 0) (- 1) \<in> set (composeFrom (seedOf ''aa'') (- 2) 0)"
  proof (rule compose_contains_downbeat)
    show "(- 2::real) < 0" by simp
    show "\<lfloor>- 2 / BAR_DURATION (contextOf (seedOf ''aa'') (- 2) 0)\<rfloor> \<le> - 1"
      by (simp only: bars order_refl)
    show "- 1 < \<lceil>0 / BAR_DURATION (contextOf (seedOf ''aa'') (- 2) 0)\<rceil>"
      by (simp only: bars)
  qed
  moreover have "bassDownbeat (contextOf (seedOf ''aa'') (- 2) 0) (- 1) =
       \<lparr> ident = BassId (- 1) 1, start_time = - 2, duration = 3 / 5, midi_pitch = PitchNaN,
         velocity = 17 / 20, confidence = 49 / 50 \<rparr>"
    by (simp add: contextOf_aa bassDownbeat_def BAR_DURATION_def ctxAA_def chordAt_def js_rem_def
        getMidiPitch_def Let_def)
  ultimately show ?thesis by (simp add: generateDeterministicNotes_def)
qed

text \<open>
  Claim C3, as stated, fails on both paths. On the analytical path a buffer of 6145 samples
  of constant value 0.5 at a sample rate of 8000 Hz is loud in every window, the estimator
  returns \<open>8000 / 2046\<close> Hz for each, and the call returns one event of pitch \<open>- 13\<close>:
  the conversion is not clamped. On the generator, for the seed \<^verbatim>\<open>"aa"\<close> and the window
  from \<open>- 2\<close> to 0 the loop visits bar \<open>- 1\<close>, the chord degree
  \<^verbatim>\<open>progression[bar % 4]\<close> is read at index \<open>- 1\<close>, and the beat-1 bass note of that
  bar is returned with pitch \<^verbatim>\<open>NaN\<close>.
\<close>

theorem pitch_outside_range:
  "map midi_pitch (analyzeAudioSegment \<lparr> sampleRate = 8000, channelData = replicate 6145 (1/2) \<rparr> 0 1)
     = [Pitch (- 13)]
   \<and> \<not> pitchBetween 0 127 (Pitch (- 13))
   \<and> \<lparr> ident = BassId (- 1) 1, start_time = - 2, duration = 3 / 5, midi_pitch = PitchNaN,
        velocity = 17 / 20, confidence = 49 / 50 \<rparr> \<in> set (generateDeterministicNotes ''aa'' (- 2) 0)
   \<and> \<not> pitchBetween 0 127 PitchNaN"
proof -
  note a = negative_bar_pitch [THEN conjunct1] and b = negative_bar_pitch [THEN conjunct2]
  have "\<lparr> ident = BassId (- 1) 1, start_time = - 2, duration = 3 / 5, midi_pitch = PitchNaN,
        velocity = 17 / 20, confidence = 49 / 50 \<rparr> \<in> set (generateDeterministicNotes ''aa'' (- 2) 0)"
    using a by (simp only: b)
  then show ?thesis by (simp add: analyze_dc_8000 pitchBetween_def del: One_nat_def)
qed

text \<open>
  Claim C3, amended. For a window that starts at or after time 0, every event of the
  generator has an integer pitch inside the range of its layer (bass 34 to 61, harmony 46
  to 73, melody 60 to 84), hence between 0 and 127. On the analytical path the pitch of
  every event is the conversion of a frequency the estimator returned on a window of the
  sweep that passed the volume gate, and a conversion lies between 0 and 127 exactly when
  the frequency \<open>f\<close> is finite with \<open>2 powr (- 139 / 24) \<le> f / 440 < 2 powr (117 / 24)\<close>.
\<close>

theorem pitch_ranges:
  "(0 \<le> startT \<longrightarrow>
      list_all (\<lambda>n. composedPitchOK n \<and> pitchBetween 0 127 (midi_pitch n))
        (generateDeterministicNotes videoId startT endT))
   \<and> set (map midi_pitch (analyzeAudioSegment audioBuffer t d))
        \<subseteq> set (map hzToMidi (trackedFrequencies (sampleRate audioBuffer) (segmentOf audioBuffer t d)))
   \<and> (pitchBetween 0 127 (hzToMidi x) \<longleftrightarrow> inMidiBand x)"
proof (intro conjI impI)
  assume "0 \<le> startT"
  from compose_pitch_range [OF this, of videoId endT]
  show "list_all (\<lambda>n. composedPitchOK n \<and> pitchBetween 0 127 (midi_pitch n))
        (generateDeterministicNotes videoId startT endT)"
    by (simp add: list_all_iff composedPitchOK_midi)
next
  show "set (map midi_pitch (analyzeAudioSegment audioBuffer t d))
        \<subseteq> set (map hzToMidi (trackedFrequencies (sampleRate audioBuffer) (segmentOf audioBuffer t d)))"
    by (rule analyze_pitches)
next
  show "pitchBetween 0 127 (hzToMidi x) \<longleftrightarrow> inMidiBand x" by (rule hzToMidi_band_iff)
qed

theorem pitch_ranges_witness:
  "(0::real) \<le> 0 \<and> generateDeterministicNotes ''aa'' 0 2 \<noteq> []
   \<and> list_all (\<lambda>n. composedPitchOK n \<and> pitchBetween 0 127 (midi_pitch n))
        (generateDeterministicNotes ''aa'' 0 2)
   \<and> Pitch (- 13) \<in> set (map hzToMidi (trackedFrequencies 8000
        (segmentOf \<lparr> sampleRate = 8000, channelData = replicate 6145 (1/2) \<rparr> 0 1)))
   \<and> inMidiBand (Fin 440) \<and> pitchBetween 0 127 (hzToMidi (Fin 440))"
proof -
  note T = pitch_ranges [of 0 "''aa''" 2 "\<lparr> sampleRate = 8000, channelData = replicate 6145 (1/2) \<rparr>" 0 1 "Fin 440"]
  have ne: "generateDeterministicNotes ''aa'' 0 2 \<noteq> []" by (simp add: D_notes)
  have gen: "list_all (\<lambda>n. composedPitchOK n \<and> pitchBetween 0 127 (midi_pitch n))
        (generateDeterministicNotes ''aa'' 0 2)"
    using T [THEN conjunct1] by simp
  have m: "Pitch (- 13) \<in> set (map midi_pitch
      (analyzeAudioSegment \<lparr> sampleRate = 8000, channelData = replicate 6145 (1/2) \<rparr> 0 1))"
    by (simp add: analyze_dc_8000)
  have "Pitch (- 13) \<in> set (map hzToMidi (trackedFrequencies
        (sampleRate \<lparr> sampleRate = 8000, channelData = replicate 6145 (1/2) \<rparr>)
        (segmentOf \<lparr> sampleRate = 8000, channelData = replicate 6145 (1/2) \<rparr> 0 1)))"
    by (rule subsetD [OF T [THEN conjunct2, THEN conjunct1] m])
  then have tr: "Pitch (- 13) \<in> set (map hzToMidi (trackedFrequencies 8000
        (segmentOf \<lparr> sampleRate = 8000, channelData = replicate 6145 (1/2) \<rparr> 0 1)))"
    by simp
  have "(2::real) powr (- 139 / 24) \<le> 2 powr 0" by (rule powr_mono) simp_all
  then have a: "(2::real) powr (- 139 / 24) \<le> 440 / 440" by simp
  have "(2::real) powr 0 < 2 powr (117 / 24)" by (rule powr_less_mono) simp_all
  then have b: "(440 / 440 :: real) < 2 powr (117 / 24)" by simp
  have band: "inMidiBand (Fin 440)" using a b by (simp add: inMidiBand_def)
  then have "pitchBetween 0 127 (hzToMidi (Fin 440))"
    using T [THEN conjunct2, THEN conjunct2] by simp
  with ne gen tr band show ?thesis by simp
qed

section \<open>The estimator on a frame whose trimmed part is silent\<close>

lemma zeroGapFrame_loud: "length zeroGapFrame = 2048 \<and> \<not> rms zeroGapFrame < 0.02"
proof -
  have "\<not> rms zeroGapFrame < 0.02"
    by (simp only: rms_silence_threshold) (simp add: zeroGapFrame_def sumSq_def sum_list_replicate)
  then show ?thesis by (simp add: zeroGapFrame_def)
qed

text \<open>
  Claim C4 fails at the frame \<open>zeroGapFrame\<close>: 2048 samples with RMS above both
  thresholds, for which the trimmed sub-frame is \<open>[0, 0]\<close>, the peak search ends with
  \<open>T0 = 0\<close> and the division \<open>sampleRate / T0\<close> returns \<open>Infinity\<close>. Only
  \<open>T0 = - 1\<close> is guarded.
\<close>

theorem estimator_returns_infinity:
  "length zeroGapFrame = 2048 \<and> \<not> rms zeroGapFrame < 0.02
   \<and> autoCorrelate zeroGapFrame 44100 = PosInf
   \<and> hzToMidi (autoCorrelate zeroGapFrame 44100) = PitchInfinity"
  using zeroGapFrame_loud autoCorrelate_zeroGap by (simp add: hzToMidi_def)

section \<open>The second bass note\<close>

lemma bassSecond_rest: "velocity (bassSecond ctx bar i) = 0.75 \<and> confidence (bassSecond ctx bar i) = 0.9"
  by (simp add: bassSecond_def)

text \<open>
  Claim C5 fails for the seed \<^verbatim>\<open>"aa"\<close> and the window from 0 to 2: the second bass note
  of bar 0 is emitted with the pitch 44 of the beat-1 bass note, where the fifth above is
  51 and the octave above is 56. When the draw does not choose the fifth, the interval
  added to the chord degree is 0.
\<close>

theorem second_bass_note_unison:
  "generateDeterministicNotes ''aa'' 0 2 ! 5 =
      \<lparr> ident = BassId 0 3, start_time = 1, duration = 1 / 2, midi_pitch = Pitch 44,
        velocity = 3 / 4, confidence = 9 / 10 \<rparr>
   \<and> generateDeterministicNotes ''aa'' 0 2 ! 5 = bassSecond (contextOf (seedOf ''aa'') 0 2) 0 0
   \<and> midi_pitch (bassDownbeat (contextOf (seedOf ''aa'') 0 2) 0) = Pitch 44
   \<and> midi_pitch (bassSecond (contextOf (seedOf ''aa'') 0 2) 0 4) = Pitch 51
   \<and> midi_pitch (bassSecond (contextOf (seedOf ''aa'') 0 2) 0 7) = Pitch 56"
  by (simp add: D_notes contextOf_aa bassSecond_def bassDownbeat_def BAR_DURATION_def
      getMidiPitch_def chordAt_def degree_plus_def js_rem_def ctxAA_def Let_def)

section \<open>Order and identifiers of the events of one call\<close>

text \<open>
  Claim C6. The events of one call of the generator are sorted by start time and their
  identifiers are pairwise distinct; so are those of one call of the segmenter, for a
  positive sample rate.
\<close>

theorem producers_sorted_distinct:
  "sorted (map start_time (generateDeterministicNotes videoId startT endT))
   \<and> distinct (map ident (generateDeterministicNotes videoId startT endT))
   \<and> (0 < sampleRate audioBuffer \<longrightarrow>
        sorted (map start_time (analyzeAudioSegment audioBuffer t d))
        \<and> distinct (map ident (analyzeAudioSegment audioBuffer t d)))"
  using compose_sorted_distinct [of videoId startT endT] analyze_sorted_distinct [of audioBuffer t d]
  by blast

theorem producers_sorted_distinct_witness:
  "(0::real) < sampleRate \<lparr> sampleRate = 8000, channelData = replicate 6145 (1/2) \<rparr>
   \<and> analyzeAudioSegment \<lparr> sampleRate = 8000, channelData = replicate 6145 (1/2) \<rparr> 0 1 \<noteq> []
   \<and> sorted (map start_time (analyzeAudioSegment \<lparr> sampleRate = 8000, channelData = replicate 6145 (1/2) \<rparr> 0 1))
   \<and> distinct (map ident (analyzeAudioSegment \<lparr> sampleRate = 8000, channelData = replicate 6145 (1/2) \<rparr> 0 1))
   \<and> length (generateDeterministicNotes ''aa'' 0 4) = 13
   \<and> sorted (map start_time (generateDeterministicNotes ''aa'' 0 4))
   \<and> distinct (map ident (generateDeterministicNotes ''aa'' 0 4))"
proof -
  have ne: "analyzeAudioSegment \<lparr> sampleRate = 8000, channelData = replicate 6145 (1/2) \<rparr> 0 1 \<noteq> []"
    by (simp add: analyze_dc_8000)
  have len: "length (generateDeterministicNotes ''aa'' 0 4) = 13" by (simp add: A_notes)
  show ?thesis
    using producers_sorted_distinct [of "''aa''" 0 4 "\<lparr> sampleRate = 8000, channelData = replicate 6145 (1/2) \<rparr>" 0 1]
      ne len
    by simp
qed

section \<open>Malformed time ranges\<close>

lemma compose_empty_window:
  assumes "e \<le> s"
  shows "generateDeterministicNotes v s e = []"
proof (rule ccontr)
  assume "generateDeterministicNotes v s e \<noteq> []"
  then obtain n ns where "composeFrom (seedOf v) s e = n # ns"
    by (cases "composeFrom (seedOf v) s e") (simp_all add: generateDeterministicNotes_def)
  then have n: "n \<in> set (composeFrom (seedOf v) s e)" by simp
  let ?ctx = "contextOf (seedOf v) s e"
  from compose_note_props [OF n] have ok: "noteOK ?ctx n" by simp
  have w: "\<not> inWindow ?ctx x" for x using assms by (simp add: inWindow_def)
  have m: "\<not> max (startTime ?ctx) x < endTime ?ctx" for x using assms by simp
  show False
  proof (cases "ident n")
    case (BassId b k)
    with ok w m show False by (simp add: noteOK_def split: if_splits)
  next
    case (HarmId b i)
    with ok w show False by (simp add: noteOK_def)
  next
    case (MelId b c r)
    with ok w show False by (simp add: noteOK_def)
  next
    case (RealId a b)
    with ok show False by (simp add: noteOK_def)
  qed
qed

lemma js_slice_empty: "0 \<le> a \<Longrightarrow> 0 \<le> b \<Longrightarrow> b \<le> a \<Longrightarrow> js_slice xs a b = []"
  by (simp add: js_slice_def Let_def)

lemma analyze_empty_range:
  assumes "d \<le> 0" "0 \<le> t + d" "0 \<le> sampleRate b"
  shows "analyzeAudioSegment b t d = []"
proof -
  have "(t + d) * sampleRate b \<le> t * sampleRate b" using assms(1,3) by (simp add: mult_right_mono)
  then have le: "\<lfloor>(t + d) * sampleRate b\<rfloor> \<le> \<lfloor>t * sampleRate b\<rfloor>" by (rule floor_mono)
  have "0 \<le> (t + d) * sampleRate b" using assms(2,3) by simp
  then have nn: "0 \<le> \<lfloor>(t + d) * sampleRate b\<rfloor>" by simp
  have "js_slice (channelData b) (max 0 \<lfloor>t * sampleRate b\<rfloor>)
          (min (int (length (channelData b))) \<lfloor>(t + d) * sampleRate b\<rfloor>) = []"
    using le nn by (intro js_slice_empty) simp_all
  then have "segmentOf b t d = []" by (simp add: segmentOf_def Let_def)
  then have "allWindowsSilent (segmentOf b t d)"
    by (simp add: allWindowsSilent_def windowStarts_short)
  then show ?thesis by (rule analyze_silent)
qed

text \<open>
  Claim C8 fails on the analytical path for a negative duration that puts the end of the
  range before time 0. With 14145 samples at 8000 Hz, start 0 and duration \<open>- 1\<close> the end
  sample is \<open>- 8000\<close>, the slice counts it from the end of the buffer and keeps the first
  6145 samples, and the call returns an event. Only the start sample is clamped at 0.
\<close>

theorem negative_duration_returns_event:
  "(- 1 :: real) \<le> 0
   \<and> segmentOf \<lparr> sampleRate = 8000, channelData = replicate 14145 (1/2) \<rparr> 0 (- 1) = replicate 6145 (1/2)
   \<and> analyzeAudioSegment \<lparr> sampleRate = 8000, channelData = replicate 14145 (1/2) \<rparr> 0 (- 1) =
     [\<lparr> ident = RealId 0 0, start_time = 0, duration = 6145 / 8000, midi_pitch = Pitch (- 13),
        velocity = 0.7, confidence = 0.85 \<rparr>]"
  by (simp add: analyze_negative_duration segmentOf_def js_slice_def Let_def)


end
